theory Spec2Isabelle
  imports Complex_Main "HOL-Library.Char_ord" "HOL-Library.List_Lexorder"
begin

section \<open>Python values used by \<^verbatim>\<open>ollama_transfer.py\<close>\<close>

text \<open>
  A Python \<^verbatim>\<open>str\<close> is modelled as a HOL \<^typ>\<open>string\<close>: a list of characters with
  code points below 256. The \<^verbatim>\<open>str\<close> methods the script calls are written out
  as they act on these code points. Exceptions are values of \<open>pyerr\<close>; a function
  that can raise returns \<open>pyerr + 'a\<close> with \<open>Inl\<close> for the exception.
\<close>

datatype pyerr =
    AttributeError
  | TypeError
  | KeyError
  | ValueError
  | IndexError
  | EOFError
  | JSONDecodeError
  | OSError string
  | SystemExit nat

subsection \<open>\<^verbatim>\<open>str\<close> methods\<close>

definition isspace :: "char \<Rightarrow> bool" where
  "isspace c =
     (let n = (of_char c :: nat)
      in (9 \<le> n \<and> n \<le> 13) \<or> (28 \<le> n \<and> n \<le> 32) \<or> n = 133 \<or> n = 160)"

definition lower_chr :: "char \<Rightarrow> char" where
  "lower_chr c =
     (let n = (of_char c :: nat)
      in if (65 \<le> n \<and> n \<le> 90) \<or> (192 \<le> n \<and> n \<le> 222 \<and> n \<noteq> 215)
         then char_of (n + 32) else c)"

definition lower :: "string \<Rightarrow> string" where
  "lower s = map lower_chr s"

definition lstrip :: "string \<Rightarrow> string" where
  "lstrip s = dropWhile isspace s"

definition rstrip :: "string \<Rightarrow> string" where
  "rstrip s = rev (dropWhile isspace (rev s))"

definition strip :: "string \<Rightarrow> string" where
  "strip s = lstrip (rstrip s)"

text \<open>\<^verbatim>\<open>s.split(sep)\<close> for a one-character separator: never an empty list.\<close>

fun split_on :: "char \<Rightarrow> string \<Rightarrow> string list" where
  "split_on sep [] = [[]]"
| "split_on sep (c # cs) =
     (if c = sep then [] # split_on sep cs
      else (case split_on sep cs of
              [] \<Rightarrow> [[c]]
            | w # ws \<Rightarrow> (c # w) # ws))"

text \<open>\<^verbatim>\<open>s.split()\<close>: the maximal runs of non-whitespace characters.\<close>

fun split_ws :: "string \<Rightarrow> string list" where
  "split_ws [] = []"
| "split_ws (c # cs) =
     (if isspace c then split_ws cs
      else (case cs of
              [] \<Rightarrow> [[c]]
            | d # _ \<Rightarrow>
                if isspace d then [c] # split_ws cs
                else (case split_ws cs of
                        [] \<Rightarrow> [[c]]
                      | w # ws \<Rightarrow> (c # w) # ws)))"

text \<open>\<^verbatim>\<open>sep.join(parts)\<close>.\<close>

fun join :: "string \<Rightarrow> string list \<Rightarrow> string" where
  "join sep [] = []"
| "join sep [p] = p"
| "join sep (p # q # ps) = p @ sep @ join sep (q # ps)"

text \<open>\<^verbatim>\<open>s.replace(old, new)\<close> for one-character \<^verbatim>\<open>old\<close> and \<^verbatim>\<open>new\<close>.\<close>

definition replace_chr :: "char \<Rightarrow> char \<Rightarrow> string \<Rightarrow> string" where
  "replace_chr old new s = map (\<lambda>c. if c = old then new else c) s"

text \<open>\<^verbatim>\<open>sub in s\<close> on strings: \<^verbatim>\<open>sub\<close> occurs as a contiguous substring.\<close>

fun str_contains :: "string \<Rightarrow> string \<Rightarrow> bool" where
  "str_contains sub [] = (sub = [])"
| "str_contains sub (c # cs) = (take (length sub) (c # cs) = sub \<or> str_contains sub cs)"

subsection \<open>JSON values as \<^verbatim>\<open>json.load\<close> returns them\<close>

text \<open>
  A \<^verbatim>\<open>dict\<close> is an association list in insertion order; \<^verbatim>\<open>json.load\<close> keeps one
  entry per key, and a lookup reads the entry of the key. Numbers are rationals:
  an \<^verbatim>\<open>int\<close> or a finite \<^verbatim>\<open>float\<close>.
\<close>

datatype json =
    JNull
  | JBool bool
  | JNum rat
  | JStr string
  | JArr "json list"
  | JObj "(string \<times> json) list"

text \<open>Truth value of a JSON value in a Python \<^verbatim>\<open>if\<close>.\<close>

fun truthy :: "json \<Rightarrow> bool" where
  "truthy JNull = False"
| "truthy (JBool b) = b"
| "truthy (JNum n) = (n \<noteq> 0)"
| "truthy (JStr s) = (s \<noteq> [])"
| "truthy (JArr xs) = (xs \<noteq> [])"
| "truthy (JObj kvs) = (kvs \<noteq> [])"

text \<open>\<^verbatim>\<open>x.get(key, default)\<close>: only a \<^verbatim>\<open>dict\<close> has the method.\<close>

fun dict_get :: "json \<Rightarrow> string \<Rightarrow> json \<Rightarrow> pyerr + json" where
  "dict_get (JObj kvs) k dflt =
     Inr (case map_of kvs k of None \<Rightarrow> dflt | Some v \<Rightarrow> v)"
| "dict_get _ k dflt = Inl AttributeError"

text \<open>\<^verbatim>\<open>for x in v\<close>: a list gives its elements, a dict its keys, a string its
  characters; nothing else is iterable.\<close>

fun iterate :: "json \<Rightarrow> pyerr + json list" where
  "iterate (JArr xs) = Inr xs"
| "iterate (JObj kvs) = Inr (map (\<lambda>kv. JStr (fst kv)) kvs)"
| "iterate (JStr s) = Inr (map (\<lambda>c. JStr [c]) s)"
| "iterate _ = Inl TypeError"

text \<open>\<^verbatim>\<open>key in v\<close> for a string key.\<close>

fun contains :: "string \<Rightarrow> json \<Rightarrow> pyerr + bool" where
  "contains k (JObj kvs) = Inr (k \<in> fst ` set kvs)"
| "contains k (JArr xs) = Inr (JStr k \<in> set xs)"
| "contains k (JStr s) = Inr (str_contains k s)"
| "contains k _ = Inl TypeError"

text \<open>\<^verbatim>\<open>v[key]\<close> for a string key.\<close>

fun subscript :: "json \<Rightarrow> string \<Rightarrow> pyerr + json" where
  "subscript (JObj kvs) k = (case map_of kvs k of None \<Rightarrow> Inl KeyError | Some v \<Rightarrow> Inr v)"
| "subscript _ k = Inl TypeError"

section \<open>Manifest parser\<close>

text \<open>
  \<^verbatim>\<open>parse_manifest\<close>, from the value \<^verbatim>\<open>json.load\<close> returned. The loop over the
  layers appends to \<^verbatim>\<open>digests\<close>, the accumulator of \<open>layer_digests\<close>.
\<close>

fun layer_digests :: "json list \<Rightarrow> json list \<Rightarrow> pyerr + json list" where
  "layer_digests digests [] = Inr digests"
| "layer_digests digests (layer # layers) =
     (case contains ''digest'' layer of
        Inl e \<Rightarrow> Inl e
      | Inr False \<Rightarrow> layer_digests digests layers
      | Inr True \<Rightarrow>
          (case subscript layer ''digest'' of
             Inl e \<Rightarrow> Inl e
           | Inr d \<Rightarrow> layer_digests (digests @ [d]) layers))"

definition parse_manifest :: "json \<Rightarrow> pyerr + json list" where
  "parse_manifest manifest =
     (case dict_get manifest ''config'' (JObj []) of
        Inl e \<Rightarrow> Inl e
      | Inr config \<Rightarrow>
          (case dict_get config ''digest'' JNull of
             Inl e \<Rightarrow> Inl e
           | Inr config_digest \<Rightarrow>
               (let digests = (if truthy config_digest then [config_digest] else [])
                in case dict_get manifest ''layers'' (JArr []) of
                     Inl e \<Rightarrow> Inl e
                   | Inr ls \<Rightarrow>
                       (case iterate ls of
                          Inl e \<Rightarrow> Inl e
                        | Inr layers \<Rightarrow> layer_digests digests layers))))"

text \<open>
  The shape of a manifest in the data model: an object whose \<^verbatim>\<open>config\<close>, when
  there is one, is an object, and whose \<^verbatim>\<open>layers\<close>, when there are some, is an
  array of objects. \<open>manifest_config\<close> and \<open>manifest_layers\<close> read the two fields
  with the defaults of the parser.
\<close>

fun is_obj :: "json \<Rightarrow> bool" where
  "is_obj (JObj kvs) = True"
| "is_obj _ = False"

fun fields :: "json \<Rightarrow> (string \<times> json) list" where
  "fields (JObj kvs) = kvs"
| "fields _ = []"

definition manifest_config :: "(string \<times> json) list \<Rightarrow> json" where
  "manifest_config kvs = (case map_of kvs ''config'' of None \<Rightarrow> JObj [] | Some c \<Rightarrow> c)"

definition manifest_layers :: "(string \<times> json) list \<Rightarrow> json list" where
  "manifest_layers kvs =
     (case map_of kvs ''layers'' of Some (JArr ls) \<Rightarrow> ls | _ \<Rightarrow> [])"

definition well_shaped :: "(string \<times> json) list \<Rightarrow> bool" where
  "well_shaped kvs =
     (is_obj (manifest_config kvs) \<and>
      (case map_of kvs ''layers'' of
         None \<Rightarrow> True
       | Some (JArr ls) \<Rightarrow> list_all is_obj ls
       | Some _ \<Rightarrow> False))"

text \<open>The digest field of an object, when the key is there.\<close>

definition digest_of :: "json \<Rightarrow> json option" where
  "digest_of layer = map_of (fields layer) ''digest''"

section \<open>Digest to blob file name\<close>

text \<open>\<^verbatim>\<open>digest.replace(":", "-")\<close>, the name of the blob file of a digest.\<close>

definition blob_name :: "string \<Rightarrow> string" where
  "blob_name digest = replace_chr (CHR '':'') (CHR ''-'') digest"

section \<open>Model inventory reader\<close>

text \<open>
  A row of \<^verbatim>\<open>ollama list\<close>: the list \<^verbatim>\<open>[name, id_, size, modified]\<close> the reader
  builds for one line.
\<close>

record model_row =
  row_name :: string
  row_id :: string
  row_size :: string
  row_modified :: string

text \<open>What \<^verbatim>\<open>subprocess.run(["ollama", "list"], check=True)\<close> gives: the two
  exceptions the reader handles, or the captured standard output.\<close>

datatype proc_result =
    CommandNotFound
  | CalledProcessError string
  | Completed string

text \<open>Everything the script prints, one constructor for each \<^verbatim>\<open>print\<close> and prompt.\<close>

datatype msg =
    ErrOllamaNotFound
  | ErrOllamaList string
  | NoModelsFound
  | NoModelsSelected
  | TableHeader
  | TableRow nat model_row
  | SelectPrompt
  | InvalidChoice int
  | EnterValidNumbers
  | ManifestNotFound string
  | PlanHeader
  | PlanModel string
  | PlanManifest "string list"
  | PlanBlob "string list"
  | PlanBlobMissing "string list"
  | CopyPrompt
  | EnterYesOrNo
  | CopyingModel string
  | InvalidModelName string
  | CopyingManifest "string list"
  | ManifestCopied
  | CopyingBlobs
  | BlobCopied string
  | BlobSkipped string
  | FilesCopied "string list"
  | ErrorCopying pyerr

text \<open>The line boundaries of \<^verbatim>\<open>str.splitlines\<close> among the code points below 256.\<close>

definition is_linebreak :: "char \<Rightarrow> bool" where
  "is_linebreak c =
     (let n = (of_char c :: nat)
      in (10 \<le> n \<and> n \<le> 13) \<or> (28 \<le> n \<and> n \<le> 30) \<or> n = 133)"

definition prepend_chr :: "char \<Rightarrow> string list \<Rightarrow> string list" where
  "prepend_chr c ls = (case ls of [] \<Rightarrow> [[c]] | l # ls' \<Rightarrow> (c # l) # ls')"

text \<open>\<^verbatim>\<open>s.splitlines()\<close>: a carriage return followed by a line feed is one boundary,
  and a boundary at the very end opens no further line.\<close>

fun splitlines :: "string \<Rightarrow> string list" where
  "splitlines [] = []"
| "splitlines [c] = (if is_linebreak c then [[]] else [[c]])"
| "splitlines (c # d # cs) =
     (if c = CHR 0x0D \<and> d = CHR 0x0A then [] # splitlines cs
      else if is_linebreak c then [] # splitlines (d # cs)
      else prepend_chr c (splitlines (d # cs)))"

text \<open>The body of the loop over the lines: a line with at least four tokens gives
  a row, any other line gives none.\<close>

definition parse_line :: "string \<Rightarrow> model_row option" where
  "parse_line line =
     (let parts = split_ws line
      in if 4 \<le> length parts
         then Some \<lparr> row_name = parts ! 0, row_id = parts ! 1,
                     row_size = parts ! 2 @ '' '' @ parts ! 3,
                     row_modified = join '' '' (drop 4 parts) \<rparr>
         else None)"

definition parse_models :: "string \<Rightarrow> model_row list" where
  "parse_models stdout =
     (let lines = splitlines (strip stdout);
          models = List.map_filter parse_line (drop 1 lines)
      in sort_key (\<lambda>x. lower (row_name x)) models)"

definition get_installed_models :: "proc_result \<Rightarrow> (pyerr + model_row list) \<times> msg list" where
  "get_installed_models r =
     (case r of
        CommandNotFound \<Rightarrow> (Inl (SystemExit 1), [ErrOllamaNotFound])
      | CalledProcessError stderr \<Rightarrow> (Inl (SystemExit 1), [ErrOllamaList stderr])
      | Completed stdout \<Rightarrow> (Inr (parse_models stdout), []))"

section \<open>Numeric-prompt selection\<close>

text \<open>
  \<^verbatim>\<open>int(s)\<close> in base ten: surrounding whitespace, an optional sign, then digits
  with single underscores allowed between them. CPython from 3.11 on also
  refuses a literal of more than 4300 digits.
\<close>

definition is_digit :: "char \<Rightarrow> bool" where
  "is_digit c = (48 \<le> (of_char c :: nat) \<and> (of_char c :: nat) \<le> 57)"

definition digit_of :: "char \<Rightarrow> nat" where
  "digit_of c = of_char c - 48"

fun digits_value :: "nat \<Rightarrow> bool \<Rightarrow> string \<Rightarrow> nat option" where
  "digits_value acc prev [] = (if prev then Some acc else None)"
| "digits_value acc prev (c # cs) =
     (if is_digit c then digits_value (10 * acc + digit_of c) True cs
      else if c = CHR ''_'' \<and> prev then digits_value acc False cs
      else None)"

definition py_int :: "string \<Rightarrow> int option" where
  "py_int s =
     (let t = strip s
      in if 4300 < length (filter is_digit t) then None
         else (case t of
                 [] \<Rightarrow> None
               | c # cs \<Rightarrow>
                   if c = CHR ''-'' then map_option (\<lambda>n. - int n) (digits_value 0 False cs)
                   else if c = CHR ''+'' then map_option int (digits_value 0 False cs)
                   else map_option int (digits_value 0 False t)))"

text \<open>\<^verbatim>\<open>[int(c.strip()) for c in choice_input.split(",")]\<close>: the first piece that is
  no integer raises \<^verbatim>\<open>ValueError\<close>.\<close>

fun parse_choices :: "string list \<Rightarrow> pyerr + int list" where
  "parse_choices [] = Inr []"
| "parse_choices (c # cs) =
     (case py_int (strip c) of
        None \<Rightarrow> Inl ValueError
      | Some n \<Rightarrow>
          (case parse_choices cs of
             Inl e \<Rightarrow> Inl e
           | Inr ns \<Rightarrow> Inr (n # ns)))"

text \<open>The \<^verbatim>\<open>for choice in choices\<close> loop: \<open>Inl choice\<close> is the \<^verbatim>\<open>break\<close> at an
  invalid choice, \<open>Inr selected_models\<close> the run to the \<^verbatim>\<open>else\<close> clause.\<close>

fun select_choices :: "model_row list \<Rightarrow> int list \<Rightarrow> string list \<Rightarrow> int + string list" where
  "select_choices models [] selected_models = Inr selected_models"
| "select_choices models (choice # choices) selected_models =
     (if 1 \<le> choice \<and> choice \<le> int (length models)
      then select_choices models choices
             (selected_models @ [row_name (models ! nat (choice - 1))])
      else Inl choice)"

text \<open>
  The \<^verbatim>\<open>while True\<close> loop of \<^verbatim>\<open>choose_models_text\<close>. Standard input is the list
  of the lines still to be read; \<^verbatim>\<open>input\<close> on an exhausted input raises
  \<^verbatim>\<open>EOFError\<close>, which the loop does not catch. The result is the value returned
  (or the exception), the input left, and what was printed.
\<close>

fun choose_loop ::
  "model_row list \<Rightarrow> string list \<Rightarrow> (pyerr + string list) \<times> string list \<times> msg list" where
  "choose_loop models [] = (Inl EOFError, [], [SelectPrompt])"
| "choose_loop models (line # rest) =
     (let choice_input = strip line
      in if choice_input = [] then (Inr [], rest, [SelectPrompt])
         else if lower choice_input = ''all''
         then (Inr (map row_name models), rest, [SelectPrompt])
         else (case parse_choices (split_on (CHR '','') choice_input) of
                 Inl e \<Rightarrow>
                   (case choose_loop models rest of
                      (r, rest', out) \<Rightarrow> (r, rest', SelectPrompt # EnterValidNumbers # out))
               | Inr choices \<Rightarrow>
                   (case select_choices models choices [] of
                      Inl choice \<Rightarrow>
                        (case choose_loop models rest of
                           (r, rest', out) \<Rightarrow>
                             (r, rest', SelectPrompt # InvalidChoice choice # out))
                    | Inr selected_models \<Rightarrow>
                        if selected_models \<noteq> []
                        then (Inr selected_models, rest, [SelectPrompt])
                        else (case choose_loop models rest of
                                (r, rest', out) \<Rightarrow> (r, rest', SelectPrompt # out)))))"

definition choose_models_text ::
  "model_row list \<Rightarrow> string list \<Rightarrow> (pyerr + string list) \<times> string list \<times> msg list" where
  "choose_models_text models stdin =
     (case choose_loop models stdin of
        (r, rest, out) \<Rightarrow>
          (r, rest, TableHeader # map (\<lambda>(i, m). TableRow (Suc i) m) (enumerate 0 models) @ out))"

section \<open>Confirmation prompt\<close>

fun prompt_copy :: "string list \<Rightarrow> (pyerr + bool) \<times> string list \<times> msg list" where
  "prompt_copy [] = (Inl EOFError, [], [CopyPrompt])"
| "prompt_copy (line # rest) =
     (let response = strip (lower line)
      in if response = ''y'' \<or> response = ''yes'' then (Inr True, rest, [CopyPrompt])
         else if response = ''n'' \<or> response = ''no'' then (Inr False, rest, [CopyPrompt])
         else (case prompt_copy rest of
                 (r, rest', out) \<Rightarrow> (r, rest', CopyPrompt # EnterYesOrNo # out)))"

text \<open>The answers the prompt recognises, as it reads them: lower-cased, then
  stripped.\<close>

definition affirmative :: "string \<Rightarrow> bool" where
  "affirmative line = (strip (lower line) = ''y'' \<or> strip (lower line) = ''yes'')"

definition negative :: "string \<Rightarrow> bool" where
  "negative line = (strip (lower line) = ''n'' \<or> strip (lower line) = ''no'')"

section \<open>Paths and the file system\<close>

text \<open>
  A \<^verbatim>\<open>pathlib.Path\<close> is the list of its parts, as the POSIX flavour parses a
  string: the parts between the slashes, without the empty ones and without
  \<^verbatim>\<open>.\<close>; an absolute path starts with its root. \<open>pjoin p s\<close> is \<^verbatim>\<open>p / s\<close>.
\<close>

type_synonym path = "string list"

definition path_parts :: "string \<Rightarrow> string list" where
  "path_parts s = filter (\<lambda>p. p \<noteq> [] \<and> p \<noteq> ''.'') (split_on (CHR ''/'') s)"

definition root_of :: "string \<Rightarrow> string" where
  "root_of s =
     (if take 2 s = ''//'' \<and> take 3 s \<noteq> ''///'' then ''//''
      else if take 1 s = ''/'' then ''/''
      else [])"

definition Path :: "string \<Rightarrow> path" where
  "Path s = (if root_of s = [] then path_parts s else root_of s # path_parts s)"

definition pjoin :: "path \<Rightarrow> string \<Rightarrow> path" where
  "pjoin p s = (if root_of s = [] then p @ path_parts s else Path s)"

text \<open>
  The file system maps a path to what is there: a directory, or a regular file
  with its content. It has no symbolic links, permissions or quotas, and a path is
  looked up by its parts as they stand. The working directory (the empty path)
  and the roots are directories.
\<close>

datatype node = Dir | File string

type_synonym filesystem = "path \<Rightarrow> node option"

definition node_at :: "filesystem \<Rightarrow> path \<Rightarrow> node option" where
  "node_at fs p = (if p = [] \<or> p = [''/''] \<or> p = [''//''] then Some Dir else fs p)"

definition exists :: "filesystem \<Rightarrow> path \<Rightarrow> bool" where
  "exists fs p = (node_at fs p \<noteq> None)"

text \<open>
  \<^verbatim>\<open>p.mkdir(parents=True, exist_ok=True)\<close>: an existing directory is left alone, a
  file in the way raises, and a missing parent is made first. The file system
  comes back also when the call raises.
\<close>

function mkdir_p :: "path \<Rightarrow> filesystem \<Rightarrow> pyerr option \<times> filesystem" where
  "mkdir_p p fs =
     (case node_at fs p of
        Some Dir \<Rightarrow> (None, fs)
      | Some (File _) \<Rightarrow> (Some (OSError ''FileExistsError''), fs)
      | None \<Rightarrow>
          (case node_at fs (butlast p) of
             Some Dir \<Rightarrow> (None, fs(p \<mapsto> Dir))
           | Some (File _) \<Rightarrow> (Some (OSError ''NotADirectoryError''), fs)
           | None \<Rightarrow>
               (case mkdir_p (butlast p) fs of
                  (Some e, fs') \<Rightarrow> (Some e, fs')
                | (None, fs') \<Rightarrow> (None, fs'(p \<mapsto> Dir)))))"
  by pat_completeness auto
termination
  by (relation "measure (\<lambda>(p, fs). length p)") (auto simp: node_at_def split: if_splits)

declare mkdir_p.simps [simp del]

text \<open>
  \<^verbatim>\<open>shutil.copy2(src, dst)\<close>: a destination that is a directory stands for the
  file of the source's name inside it; copying a file onto itself, reading a
  directory or a missing file, and writing where no directory is, raise. The
  copy creates the destination or overwrites it.
\<close>

definition copy2 :: "path \<Rightarrow> path \<Rightarrow> filesystem \<Rightarrow> pyerr + filesystem" where
  "copy2 src dst fs =
     (let dst' = (if node_at fs dst = Some Dir then dst @ [last src] else dst)
      in case node_at fs src of
           None \<Rightarrow> Inl (OSError ''FileNotFoundError'')
         | Some Dir \<Rightarrow>
             if dst' = src then Inl (OSError ''SameFileError'')
             else Inl (OSError ''IsADirectoryError'')
         | Some (File content) \<Rightarrow>
             if dst' = src then Inl (OSError ''SameFileError'')
             else (case node_at fs dst' of
                     Some Dir \<Rightarrow> Inl (OSError ''IsADirectoryError'')
                   | _ \<Rightarrow>
                       (case node_at fs (butlast dst') of
                          Some Dir \<Rightarrow> Inr (fs(dst' \<mapsto> File content))
                        | Some (File _) \<Rightarrow> Inl (OSError ''NotADirectoryError'')
                        | None \<Rightarrow> Inl (OSError ''FileNotFoundError''))))"

section \<open>Path resolver\<close>

text \<open>
  The module-level code that fixes the directories (lines 23 to 47). The two
  \<^verbatim>\<open>CUSTOM_\<close> constants, \<^verbatim>\<open>platform.system()\<close>, \<^verbatim>\<open>Path.home()\<close> and the file
  system are its inputs.
\<close>

record dirs =
  OUTPUT_DIR :: path
  OLLAMA_BASE_DIR :: path
  OLLAMA_MANIFEST_DIR :: path
  OLLAMA_BLOB_DIR :: path

definition default_base_dir :: "string \<Rightarrow> path \<Rightarrow> filesystem \<Rightarrow> path" where
  "default_base_dir system home fs =
     (if system = ''Darwin'' then pjoin home ''.ollama/models''
      else if system = ''Windows'' then pjoin home ''.ollama/models''
      else if exists fs (pjoin (Path ''/var/lib/ollama'') ''blobs'')
      then Path ''/var/lib/ollama''
      else if exists fs (pjoin (Path ''/var/lib/ollama/models'') ''blobs'')
      then Path ''/var/lib/ollama''
      else Path ''/usr/share/ollama/models'')"

definition resolve_dirs :: "string \<Rightarrow> string \<Rightarrow> string \<Rightarrow> path \<Rightarrow> filesystem \<Rightarrow> dirs" where
  "resolve_dirs custom_output_dir custom_ollama_base_dir system home fs =
     (let output_dir =
            (if custom_output_dir \<noteq> [] then Path custom_output_dir else Path ''./ollama'');
          base_dir =
            (if custom_ollama_base_dir \<noteq> [] then Path custom_ollama_base_dir
             else default_base_dir system home fs)
      in \<lparr> OUTPUT_DIR = output_dir,
           OLLAMA_BASE_DIR = base_dir,
           OLLAMA_MANIFEST_DIR = pjoin base_dir ''manifests/registry.ollama.ai/library'',
           OLLAMA_BLOB_DIR = pjoin base_dir ''blobs'' \<rparr>)"

section \<open>Exporter\<close>

text \<open>
  The loop over the digests in \<^verbatim>\<open>copy_files\<close> (lines 193 to 200). An exception
  of \<^verbatim>\<open>copy2\<close> leaves the loop; the result holds the exception, if any, the file
  system and the notices printed.
\<close>

fun copy_blobs ::
  "path \<Rightarrow> path \<Rightarrow> string list \<Rightarrow> filesystem \<Rightarrow> pyerr option \<times> filesystem \<times> msg list" where
  "copy_blobs blob_dir blobs_dir [] fs = (None, fs, [])"
| "copy_blobs blob_dir blobs_dir (digest # digests) fs =
     (let blob_file = pjoin blob_dir (blob_name digest)
      in if exists fs blob_file
         then (let dest_blob = pjoin blobs_dir (blob_name digest)
               in case copy2 blob_file dest_blob fs of
                    Inl e \<Rightarrow> (Some e, fs, [])
                  | Inr fs' \<Rightarrow>
                      (case copy_blobs blob_dir blobs_dir digests fs' of
                         (r, fs'', out) \<Rightarrow> (r, fs'', BlobCopied (blob_name digest) # out)))
         else (case copy_blobs blob_dir blobs_dir digests fs of
                 (r, fs'', out) \<Rightarrow> (r, fs'', BlobSkipped (blob_name digest) # out)))"

text \<open>
  The \<^verbatim>\<open>try\<close> block of \<^verbatim>\<open>copy_files\<close> with its handler (lines 177 to 205), for
  the two parts of the model name. Every exception inside is caught and printed,
  so it always returns: the file system and what it printed.
\<close>

definition try_copy ::
  "dirs \<Rightarrow> string \<Rightarrow> string \<Rightarrow> path \<Rightarrow> string list \<Rightarrow> filesystem \<Rightarrow>
     filesystem \<times> msg list" where
  "try_copy d model_base version manifest_path digests fs =
     (let manifest_dir =
            pjoin (pjoin (pjoin (pjoin (OUTPUT_DIR d) ''manifests'')
              ''registry.ollama.ai'') ''library'') model_base;
          blobs_dir = pjoin (OUTPUT_DIR d) ''blobs''
      in case mkdir_p manifest_dir fs of
           (Some e, fs1) \<Rightarrow> (fs1, [ErrorCopying e])
         | (None, fs1) \<Rightarrow>
             (case mkdir_p blobs_dir fs1 of
                (Some e, fs2) \<Rightarrow> (fs2, [ErrorCopying e])
              | (None, fs2) \<Rightarrow>
                  (let dest_manifest = pjoin manifest_dir version
                   in case copy2 manifest_path dest_manifest fs2 of
                        Inl e \<Rightarrow> (fs2, [CopyingManifest dest_manifest, ErrorCopying e])
                      | Inr fs3 \<Rightarrow>
                          (case copy_blobs (OLLAMA_BLOB_DIR d) blobs_dir digests fs3 of
                             (Some e, fs4, out) \<Rightarrow>
                               (fs4, [CopyingManifest dest_manifest, ManifestCopied,
                                      CopyingBlobs] @ out @ [ErrorCopying e])
                           | (None, fs4, out) \<Rightarrow>
                               (fs4, [CopyingManifest dest_manifest, ManifestCopied,
                                      CopyingBlobs] @ out @ [FilesCopied (OUTPUT_DIR d)])))))"

text \<open>\<^verbatim>\<open>copy_files\<close>: a model name that does not split into exactly two parts is
  reported, and the function returns before the \<^verbatim>\<open>try\<close> block.\<close>

definition copy_files ::
  "dirs \<Rightarrow> string \<Rightarrow> path \<Rightarrow> string list \<Rightarrow> filesystem \<Rightarrow> filesystem \<times> msg list" where
  "copy_files d model_name manifest_path digests fs =
     (let model_parts = split_on (CHR '':'') model_name
      in if length model_parts \<noteq> 2 then (fs, [InvalidModelName model_name])
         else try_copy d (model_parts ! 0) (model_parts ! 1) manifest_path digests fs)"

section \<open>Orchestrator\<close>

text \<open>The export loop of \<^verbatim>\<open>main\<close> (lines 249 to 251).\<close>

fun export_models ::
  "dirs \<Rightarrow> (string \<times> path \<times> string list) list \<Rightarrow> filesystem \<Rightarrow> filesystem \<times> msg list" where
  "export_models d [] fs = (fs, [])"
| "export_models d ((model, manifest_path, digests) # model_data) fs =
     (case copy_files d model manifest_path digests fs of
        (fs1, out1) \<Rightarrow>
          (case export_models d model_data fs1 of
             (fs2, out2) \<Rightarrow> (fs2, CopyingModel model # out1 @ out2)))"

text \<open>The confirmation gate and the export behind it (lines 247 to 251): the
  exception that ended it, if any, the input left, the file system and what was
  printed.\<close>

definition confirm_and_copy ::
  "dirs \<Rightarrow> (string \<times> path \<times> string list) list \<Rightarrow> string list \<Rightarrow> filesystem \<Rightarrow>
     pyerr option \<times> string list \<times> filesystem \<times> msg list" where
  "confirm_and_copy d model_data stdin fs =
     (case prompt_copy stdin of
        (Inl e, rest, out) \<Rightarrow> (Some e, rest, fs, out)
      | (Inr False, rest, out) \<Rightarrow> (None, rest, fs, out)
      | (Inr True, rest, out) \<Rightarrow>
          (case export_models d model_data fs of
             (fs', out') \<Rightarrow> (None, rest, fs', out @ out')))"

text \<open>\<^verbatim>\<open>find_manifest_path\<close>: unpacking the split into two names raises
  \<^verbatim>\<open>ValueError\<close> unless there are exactly two parts, and a missing manifest
  ends the process.\<close>

definition find_manifest_path ::
  "dirs \<Rightarrow> filesystem \<Rightarrow> string \<Rightarrow> (pyerr + path) \<times> msg list" where
  "find_manifest_path d fs model =
     (case split_on (CHR '':'') model of
        [model_name, model_version] \<Rightarrow>
          (let manifest_path = pjoin (pjoin (OLLAMA_MANIFEST_DIR d) model_name) model_version
           in if \<not> exists fs manifest_path
              then (Inl (SystemExit 1), [ManifestNotFound model_name])
              else (Inr manifest_path, []))
      | _ \<Rightarrow> (Inl ValueError, []))"

text \<open>Opening the manifest and \<^verbatim>\<open>json.load\<close>; the decoder is a parameter and
  gives \<open>None\<close> for a text that is no JSON document.\<close>

definition load_manifest ::
  "(string \<Rightarrow> json option) \<Rightarrow> filesystem \<Rightarrow> path \<Rightarrow> pyerr + json" where
  "load_manifest json_load fs manifest_path =
     (case node_at fs manifest_path of
        None \<Rightarrow> Inl (OSError ''FileNotFoundError'')
      | Some Dir \<Rightarrow> Inl (OSError ''IsADirectoryError'')
      | Some (File content) \<Rightarrow>
          (case json_load content of
             None \<Rightarrow> Inl JSONDecodeError
           | Some manifest \<Rightarrow> Inr manifest))"

text \<open>The loop that collects \<^verbatim>\<open>model_data\<close> (lines 228 to 232).\<close>

fun collect_model_data ::
  "dirs \<Rightarrow> (string \<Rightarrow> json option) \<Rightarrow> filesystem \<Rightarrow> string list \<Rightarrow>
     (pyerr + (string \<times> path \<times> json list) list) \<times> msg list" where
  "collect_model_data d json_load fs [] = (Inr [], [])"
| "collect_model_data d json_load fs (model # selected_models) =
     (case find_manifest_path d fs model of
        (Inl e, out) \<Rightarrow> (Inl e, out)
      | (Inr manifest_path, out) \<Rightarrow>
          (case load_manifest json_load fs manifest_path of
             Inl e \<Rightarrow> (Inl e, out)
           | Inr manifest \<Rightarrow>
               (case parse_manifest manifest of
                  Inl e \<Rightarrow> (Inl e, out)
                | Inr digests \<Rightarrow>
                    (case collect_model_data d json_load fs selected_models of
                       (Inl e, out') \<Rightarrow> (Inl e, out @ out')
                     | (Inr model_data, out') \<Rightarrow>
                         (Inr ((model, manifest_path, digests) # model_data), out @ out')))))"

text \<open>The preview (lines 235 to 245). \<^verbatim>\<open>digest.replace\<close> raises \<^verbatim>\<open>AttributeError\<close>
  on a digest that is no string, so the digests that pass are strings.\<close>

fun show_blobs :: "dirs \<Rightarrow> filesystem \<Rightarrow> json list \<Rightarrow> (pyerr + string list) \<times> msg list" where
  "show_blobs d fs [] = (Inr [], [])"
| "show_blobs d fs (JStr digest # digests) =
     (let blob_file = pjoin (OLLAMA_BLOB_DIR d) (blob_name digest);
          out = PlanBlob blob_file # (if \<not> exists fs blob_file then [PlanBlobMissing blob_file] else [])
      in case show_blobs d fs digests of
           (Inl e, out') \<Rightarrow> (Inl e, out @ out')
         | (Inr ds, out') \<Rightarrow> (Inr (digest # ds), out @ out'))"
| "show_blobs d fs (_ # digests) = (Inl AttributeError, [])"

fun show_plan ::
  "dirs \<Rightarrow> filesystem \<Rightarrow> (string \<times> path \<times> json list) list \<Rightarrow>
     (pyerr + (string \<times> path \<times> string list) list) \<times> msg list" where
  "show_plan d fs [] = (Inr [], [])"
| "show_plan d fs ((model, manifest_path, digests) # model_data) =
     (case show_blobs d fs digests of
        (Inl e, out) \<Rightarrow> (Inl e, PlanModel model # PlanManifest manifest_path # out)
      | (Inr ds, out) \<Rightarrow>
          (case show_plan d fs model_data of
             (Inl e, out') \<Rightarrow> (Inl e, PlanModel model # PlanManifest manifest_path # out @ out')
           | (Inr plan, out') \<Rightarrow>
               (Inr ((model, manifest_path, ds) # plan),
                PlanModel model # PlanManifest manifest_path # out @ out')))"

text \<open>\<^verbatim>\<open>models[i]\<close> for a Python integer: a negative index counts from the end.\<close>

definition py_index :: "'a list \<Rightarrow> int \<Rightarrow> pyerr + 'a" where
  "py_index xs i =
     (if 0 \<le> i \<and> i < int (length xs) then Inr (xs ! nat i)
      else if - int (length xs) \<le> i \<and> i < 0 then Inr (xs ! nat (int (length xs) + i))
      else Inl IndexError)"

text \<open>\<^verbatim>\<open>choose_models_picker\<close>, from the indices the picker returned.\<close>

fun picked_names :: "model_row list \<Rightarrow> int list \<Rightarrow> pyerr + string list" where
  "picked_names models [] = Inr []"
| "picked_names models (i # selected_indices) =
     (case py_index models i of
        Inl e \<Rightarrow> Inl e
      | Inr m \<Rightarrow>
          (case picked_names models selected_indices of
             Inl e \<Rightarrow> Inl e
           | Inr names \<Rightarrow> Inr (row_name m # names)))"

text \<open>
  What a run of the script reads: the two constants at the top of the file, the
  platform, the outcome of \<^verbatim>\<open>ollama list\<close>, the indices the picker returns when
  it is used, the lines of standard input, the JSON decoder and the file system.
\<close>

record env =
  CUSTOM_OUTPUT_DIR :: string
  CUSTOM_OLLAMA_BASE_DIR :: string
  LISTPICK_AVAILABLE :: bool
  system :: string
  home :: path
  ollama_list :: proc_result
  picker_indices :: "int list"
  stdin :: "string list"
  json_load :: "string \<Rightarrow> json option"
  files :: filesystem

text \<open>\<^verbatim>\<open>main\<close>, after the module-level code: the exception that ended the run, if
  any, the file system at the end, and what was printed.\<close>

definition main :: "env \<Rightarrow> pyerr option \<times> filesystem \<times> msg list" where
  "main e =
     (let fs = files e;
          d = resolve_dirs (CUSTOM_OUTPUT_DIR e) (CUSTOM_OLLAMA_BASE_DIR e) (system e) (home e) fs
      in case get_installed_models (ollama_list e) of
           (Inl x, out0) \<Rightarrow> (Some x, fs, out0)
         | (Inr models, out0) \<Rightarrow>
             if models = [] then (None, fs, out0 @ [NoModelsFound])
             else (case (if system e = ''Windows'' \<or> \<not> LISTPICK_AVAILABLE e
                         then choose_models_text models (stdin e)
                         else (picked_names models (picker_indices e), stdin e, []))
                   of
                     (Inl x, rest, out1) \<Rightarrow> (Some x, fs, out0 @ out1)
                   | (Inr selected_models, rest, out1) \<Rightarrow>
                       if selected_models = [] then (None, fs, out0 @ out1 @ [NoModelsSelected])
                       else (case collect_model_data d (json_load e) fs selected_models of
                               (Inl x, out2) \<Rightarrow> (Some x, fs, out0 @ out1 @ out2)
                             | (Inr model_data, out2) \<Rightarrow>
                                 (case show_plan d fs model_data of
                                    (Inl x, out3) \<Rightarrow>
                                      (Some x, fs, out0 @ out1 @ out2 @ PlanHeader # out3)
                                  | (Inr plan, out3) \<Rightarrow>
                                      (case confirm_and_copy d plan rest fs of
                                         (r, rest', fs', out4) \<Rightarrow>
                                           (r, fs', out0 @ out1 @ out2 @ PlanHeader # out3 @ out4))))))"

section \<open>The claims in the words of the specification\<close>

text \<open>
  The digest list as the specification words it: the digest of the config when
  the field is present, then the digest of every layer that has the field.
\<close>

definition spec_digest_list :: "(string \<times> json) list \<Rightarrow> json list" where
  "spec_digest_list kvs =
     (case digest_of (manifest_config kvs) of None \<Rightarrow> [] | Some d \<Rightarrow> [d]) @
     List.map_filter digest_of (manifest_layers kvs)"

section \<open>Well-formed names and separate trees\<close>

text \<open>
  A name that \<^verbatim>\<open>pathlib\<close> takes for exactly one part of a path, and that the file
  system takes for an entry of the directory: not empty, not \<^verbatim>\<open>.\<close> or \<^verbatim>\<open>..\<close>, and
  without a slash. The blob file name of a digest \<^verbatim>\<open>algorithm:hex\<close> is one.
\<close>

definition plain :: "string \<Rightarrow> bool" where
  "plain s = (s \<noteq> [] \<and> s \<noteq> ''.'' \<and> s \<noteq> ''..'' \<and> CHR ''/'' \<notin> set s)"

text \<open>\<open>inside dir p\<close>: the path \<open>p\<close> is \<open>dir\<close> or lies below it.\<close>

definition inside :: "path \<Rightarrow> path \<Rightarrow> bool" where
  "inside dir p = (take (length dir) p = dir)"




section \<open>An example run\<close>

text \<open>
  The end-to-end scenario of the specification: \<^verbatim>\<open>ollama list\<close> reports the model
  \<^verbatim>\<open>llama3:8b\<close>, whose manifest names the config digest \<^verbatim>\<open>sha256:aa\<close>, a layer with
  the digest \<^verbatim>\<open>sha256:bb\<close> and a layer without one. The source root is overridden
  to \<^verbatim>\<open>/store\<close>, where the blob of \<^verbatim>\<open>sha256:aa\<close> exists and the one of \<^verbatim>\<open>sha256:bb\<close>
  does not. The picker is not available; the user types \<^verbatim>\<open>1\<close>, then \<^verbatim>\<open>y\<close>.
\<close>

definition example_manifest :: json where
  "example_manifest =
     JObj [(''config'', JObj [(''digest'', JStr ''sha256:aa'')]),
           (''layers'', JArr [JObj [(''digest'', JStr ''sha256:bb'')], JObj []])]"

definition example_env :: env where
  "example_env =
     \<lparr> CUSTOM_OUTPUT_DIR = [],
       CUSTOM_OLLAMA_BASE_DIR = ''/store'',
       LISTPICK_AVAILABLE = False,
       system = ''Linux'',
       home = [''/'', ''home'', ''user''],
       ollama_list =
         Completed (''NAME ID SIZE MODIFIED'' @ [CHR 0x0A] @
                    ''llama3:8b 365c0bd3c000 4.7 GB 2 days ago'' @ [CHR 0x0A]),
       picker_indices = [],
       stdin = [''1'', ''y''],
       json_load = (\<lambda>s. if s = ''manifest'' then Some example_manifest else None),
       files =
         [[''/'', ''store''] \<mapsto> Dir,
          [''/'', ''store'', ''manifests''] \<mapsto> Dir,
          [''/'', ''store'', ''manifests'', ''registry.ollama.ai''] \<mapsto> Dir,
          [''/'', ''store'', ''manifests'', ''registry.ollama.ai'', ''library''] \<mapsto> Dir,
          [''/'', ''store'', ''manifests'', ''registry.ollama.ai'', ''library'', ''llama3''] \<mapsto> Dir,
          [''/'', ''store'', ''manifests'', ''registry.ollama.ai'', ''library'', ''llama3'', ''8b'']
            \<mapsto> File ''manifest'',
          [''/'', ''store'', ''blobs''] \<mapsto> Dir,
          [''/'', ''store'', ''blobs'', ''sha256-aa''] \<mapsto> File ''blob aa''] \<rparr>"

text \<open>The directories of the example run, and the path of its manifest.\<close>

definition example_dirs :: dirs where
  "example_dirs =
     resolve_dirs (CUSTOM_OUTPUT_DIR example_env) (CUSTOM_OLLAMA_BASE_DIR example_env)
       (system example_env) (home example_env) (files example_env)"

definition example_manifest_path :: path where
  "example_manifest_path =
     [''/'', ''store'', ''manifests'', ''registry.ollama.ai'', ''library'', ''llama3'', ''8b'']"




text \<open>An inventory of five rows for the selection prompt.\<close>

definition example_models :: "model_row list" where
  "example_models =
     map (\<lambda>n. \<lparr> row_name = n, row_id = ''365c0bd3c000'', row_size = ''4.7 GB'',
                row_modified = ''2 days ago'' \<rparr>)
       [''gemma:2b'', ''llama3:8b'', ''mistral:7b'', ''phi3:mini'', ''qwen2:7b'']"

section \<open>Properties of the manifest parser\<close>

lemma layer_digests_objects:
  "list_all is_obj layers \<Longrightarrow>
   layer_digests digests layers = Inr (digests @ List.map_filter digest_of layers)"
proof (induction layers arbitrary: digests)
  case Nil
  show ?case by (simp add: List.map_filter_simps)
next
  case (Cons layer layers)
  then obtain kvs where layer: "layer = JObj kvs"
    by (cases layer) auto
  from Cons.prems have rest: "list_all is_obj layers"
    by simp
  show ?case
  proof (cases "map_of kvs ''digest''")
    case None
    then have "''digest'' \<notin> fst ` set kvs"
      by (simp add: map_of_eq_None_iff)
    with None layer Cons.IH [OF rest] show ?thesis
      by (simp add: List.map_filter_simps digest_of_def)
  next
    case (Some v)
    then have "''digest'' \<in> fst ` set kvs"
      by (metis map_of_eq_None_iff option.distinct(1))
    with Some layer Cons.IH [OF rest] show ?thesis
      by (simp add: List.map_filter_simps digest_of_def)
  qed
qed

lemma parse_manifest_well_shaped:
  assumes "well_shaped kvs"
  shows "parse_manifest (JObj kvs) =
     Inr ((case digest_of (manifest_config kvs) of
             None \<Rightarrow> []
           | Some v \<Rightarrow> if truthy v then [v] else []) @
          List.map_filter digest_of (manifest_layers kvs))"
proof -
  from assms obtain c where c: "manifest_config kvs = JObj c"
    by (cases "manifest_config kvs") (auto simp: well_shaped_def)
  then have cfg: "dict_get (JObj kvs) ''config'' (JObj []) = Inr (JObj c)"
    by (simp add: manifest_config_def)
  from assms obtain v where
    v: "dict_get (JObj kvs) ''layers'' (JArr []) = Inr v" "iterate v = Inr (manifest_layers kvs)"
    by (auto simp: well_shaped_def manifest_layers_def split: option.splits json.splits)
  from assms have "list_all is_obj (manifest_layers kvs)"
    by (auto simp: well_shaped_def manifest_layers_def split: option.splits json.splits)
  then have "layer_digests ds (manifest_layers kvs) =
      Inr (ds @ List.map_filter digest_of (manifest_layers kvs))" for ds
    by (rule layer_digests_objects)
  with cfg v c show ?thesis
    by (simp add: parse_manifest_def digest_of_def Let_def split: option.splits)
qed

text \<open>
  Claim C1, as the code has it. For a manifest of the data model's shape the
  parser returns the digest of the config, when the field is there and its value
  is truthy (not \<^verbatim>\<open>null\<close>, not the empty string), followed by the digest of each
  layer in the order of the \<^verbatim>\<open>layers\<close> array; a layer without the field is
  skipped and equal digests are all kept. In particular a non-empty config digest
  \<open>d0\<close> and layers with digests \<open>d1\<close> and \<open>d2\<close> around a layer that has none give
  exactly \<open>[d0, d1, d2]\<close>.
\<close>

theorem parse_manifest_digest_list:
  "(well_shaped kvs \<longrightarrow>
      parse_manifest (JObj kvs) =
        Inr ((case digest_of (manifest_config kvs) of
                None \<Rightarrow> []
              | Some v \<Rightarrow> if truthy v then [v] else []) @
             List.map_filter digest_of (manifest_layers kvs))) \<and>
   (d0 \<noteq> [] \<longrightarrow>
      parse_manifest
        (JObj [(''config'', JObj [(''digest'', JStr d0)]),
               (''layers'', JArr [JObj [(''digest'', JStr d1)], JObj [],
                                  JObj [(''digest'', JStr d2)]])]) =
        Inr [JStr d0, JStr d1, JStr d2])"
proof (intro conjI impI)
  assume "well_shaped kvs"
  then show "parse_manifest (JObj kvs) =
        Inr ((case digest_of (manifest_config kvs) of
                None \<Rightarrow> []
              | Some v \<Rightarrow> if truthy v then [v] else []) @
             List.map_filter digest_of (manifest_layers kvs))"
    by (rule parse_manifest_well_shaped)
next
  assume "d0 \<noteq> []"
  then show "parse_manifest
        (JObj [(''config'', JObj [(''digest'', JStr d0)]),
               (''layers'', JArr [JObj [(''digest'', JStr d1)], JObj [],
                                  JObj [(''digest'', JStr d2)]])]) =
        Inr [JStr d0, JStr d1, JStr d2]"
    by (simp add: parse_manifest_def)
qed

text \<open>The theorem of C1 at a manifest with two equal layer digests.\<close>

theorem parse_manifest_digest_list_witness:
  "well_shaped [(''config'', JObj [(''digest'', JStr ''sha256:aa'')]),
                (''layers'', JArr [JObj [(''digest'', JStr ''sha256:bb'')], JObj [],
                                   JObj [(''digest'', JStr ''sha256:bb'')]])] \<and>
   ''sha256:aa'' \<noteq> [] \<and>
   parse_manifest
     (JObj [(''config'', JObj [(''digest'', JStr ''sha256:aa'')]),
            (''layers'', JArr [JObj [(''digest'', JStr ''sha256:bb'')], JObj [],
                               JObj [(''digest'', JStr ''sha256:bb'')]])]) =
     Inr [JStr ''sha256:aa'', JStr ''sha256:bb'', JStr ''sha256:bb'']"
  using parse_manifest_digest_list
    [of "[(''config'', JObj [(''digest'', JStr ''sha256:aa'')]),
          (''layers'', JArr [JObj [(''digest'', JStr ''sha256:bb'')], JObj [],
                             JObj [(''digest'', JStr ''sha256:bb'')]])]"
        "''sha256:aa''" "''sha256:bb''" "''sha256:bb''"]
  by (simp add: well_shaped_def manifest_config_def manifest_layers_def digest_of_def
      List.map_filter_simps)

text \<open>
  Claim C1 as the specification words it (the config digest whenever the field is
  present) fails for a config digest that is the empty string: the field is
  present, and the parser leaves it out.
\<close>

theorem parse_manifest_empty_config_digest_counterexample:
  "parse_manifest
     (JObj [(''config'', JObj [(''digest'', JStr [])]),
            (''layers'', JArr [JObj [(''digest'', JStr ''sha256:bb'')]])]) =
     Inr [JStr ''sha256:bb''] \<and>
   spec_digest_list
     [(''config'', JObj [(''digest'', JStr [])]),
      (''layers'', JArr [JObj [(''digest'', JStr ''sha256:bb'')]])] =
     [JStr [], JStr ''sha256:bb''] \<and>
   parse_manifest
     (JObj [(''config'', JObj [(''digest'', JStr [])]),
            (''layers'', JArr [JObj [(''digest'', JStr ''sha256:bb'')]])]) \<noteq>
     Inr (spec_digest_list
            [(''config'', JObj [(''digest'', JStr [])]),
             (''layers'', JArr [JObj [(''digest'', JStr ''sha256:bb'')]])])"
  by (simp add: parse_manifest_def spec_digest_list_def manifest_config_def manifest_layers_def
      digest_of_def List.map_filter_simps)

text \<open>
  Claim C10. A config digest that is present and equal to the empty string adds
  nothing to the list: the result is the layer digests alone. A layer whose
  digest is present and equal to the empty string adds the empty string, at the
  place of the layer.
\<close>

theorem parse_manifest_empty_digest_asymmetry:
  "(well_shaped kvs \<and> digest_of (manifest_config kvs) = Some (JStr []) \<longrightarrow>
      parse_manifest (JObj kvs) = Inr (List.map_filter digest_of (manifest_layers kvs))) \<and>
   (well_shaped kvs \<and> manifest_layers kvs = before @ layer # after \<and>
    digest_of layer = Some (JStr []) \<longrightarrow>
      (\<exists>config_part.
         parse_manifest (JObj kvs) =
           Inr (config_part @ List.map_filter digest_of before @
                JStr [] # List.map_filter digest_of after)))"
proof (intro conjI impI)
  assume "well_shaped kvs \<and> digest_of (manifest_config kvs) = Some (JStr [])"
  then show "parse_manifest (JObj kvs) = Inr (List.map_filter digest_of (manifest_layers kvs))"
    by (simp add: parse_manifest_well_shaped)
next
  assume a: "well_shaped kvs \<and> manifest_layers kvs = before @ layer # after \<and>
    digest_of layer = Some (JStr [])"
  then have "List.map_filter digest_of (manifest_layers kvs) =
      List.map_filter digest_of before @ JStr [] # List.map_filter digest_of after"
    by (simp add: List.map_filter_def)
  with a show "\<exists>config_part.
         parse_manifest (JObj kvs) =
           Inr (config_part @ List.map_filter digest_of before @
                JStr [] # List.map_filter digest_of after)"
    by (simp add: parse_manifest_well_shaped)
qed

text \<open>The theorem of C10 at a manifest whose config digest and only layer digest
  are both the empty string.\<close>

theorem parse_manifest_empty_digest_asymmetry_witness:
  "well_shaped [(''config'', JObj [(''digest'', JStr [])]),
                (''layers'', JArr [JObj [(''digest'', JStr [])]])] \<and>
   digest_of (manifest_config [(''config'', JObj [(''digest'', JStr [])]),
                (''layers'', JArr [JObj [(''digest'', JStr [])]])]) = Some (JStr []) \<and>
   manifest_layers [(''config'', JObj [(''digest'', JStr [])]),
                (''layers'', JArr [JObj [(''digest'', JStr [])]])] =
     [] @ JObj [(''digest'', JStr [])] # [] \<and>
   digest_of (JObj [(''digest'', JStr [])]) = Some (JStr []) \<and>
   parse_manifest (JObj [(''config'', JObj [(''digest'', JStr [])]),
                (''layers'', JArr [JObj [(''digest'', JStr [])]])]) = Inr [JStr []]"
  using parse_manifest_empty_digest_asymmetry
    [of "[(''config'', JObj [(''digest'', JStr [])]),
          (''layers'', JArr [JObj [(''digest'', JStr [])]])]"
        "[]" "JObj [(''digest'', JStr [])]" "[]"]
  by (simp add: well_shaped_def manifest_config_def manifest_layers_def digest_of_def
      List.map_filter_simps)

section \<open>Properties of the blob file name\<close>

lemma replace_chr_inverse:
  "new \<notin> set s \<Longrightarrow> replace_chr new old (replace_chr old new s) = s"
  by (induction s) (auto simp: replace_chr_def)

text \<open>
  Claim C7. The blob file name of a digest is the digest with every colon
  replaced by a dash, so \<^verbatim>\<open>sha256:abc\<close> gives \<^verbatim>\<open>sha256-abc\<close>; for a digest with
  exactly one colon and no dash, replacing the dashes of the file name by colons
  gives the digest back.
\<close>

theorem blob_name_round_trip:
  "blob_name ''sha256:abc'' = ''sha256-abc'' \<and>
   (count_list digest (CHR '':'') = 1 \<and> CHR ''-'' \<notin> set digest \<longrightarrow>
      replace_chr (CHR ''-'') (CHR '':'') (blob_name digest) = digest)"
  by (simp add: blob_name_def replace_chr_inverse) (simp add: replace_chr_def)

text \<open>The theorem of C7 at the digest \<^verbatim>\<open>sha256:0f3a\<close>.\<close>

theorem blob_name_round_trip_witness:
  "count_list ''sha256:0f3a'' (CHR '':'') = 1 \<and> CHR ''-'' \<notin> set ''sha256:0f3a'' \<and>
   blob_name ''sha256:0f3a'' = ''sha256-0f3a'' \<and>
   replace_chr (CHR ''-'') (CHR '':'') (blob_name ''sha256:0f3a'') = ''sha256:0f3a''"
  using blob_name_round_trip [of "''sha256:0f3a''"]
  by (simp add: blob_name_def replace_chr_def)

section \<open>Properties of the path resolver\<close>

text \<open>
  Claim C8 at a Linux host with no override where only the second candidate,
  \<^verbatim>\<open>/var/lib/ollama/models\<close>, has a \<^verbatim>\<open>blobs\<close> subdirectory: the source root is set to
  \<^verbatim>\<open>/var/lib/ollama\<close>, the first candidate, whose probe failed, and the blob
  directory derived from it does not exist.
\<close>

theorem default_base_dir_second_probe:
  "(let fs = [[''/'', ''var'', ''lib'', ''ollama'', ''models'', ''blobs''] \<mapsto> Dir];
        d = resolve_dirs [] [] ''Linux'' [''/'', ''home'', ''user''] fs
    in \<not> exists fs (pjoin (Path ''/var/lib/ollama'') ''blobs'') \<and>
       exists fs (pjoin (Path ''/var/lib/ollama/models'') ''blobs'') \<and>
       OLLAMA_BASE_DIR d = Path ''/var/lib/ollama'' \<and>
       OLLAMA_BASE_DIR d \<noteq> Path ''/var/lib/ollama/models'' \<and>
       \<not> exists fs (OLLAMA_BLOB_DIR d))"
  by (simp add: resolve_dirs_def default_base_dir_def exists_def node_at_def Path_def pjoin_def
      root_of_def path_parts_def Let_def)

section \<open>Properties of the exporter on a malformed model name\<close>





section \<open>Properties of the confirmation prompt\<close>

lemma prompt_copy_answer:
  assumes "list_all (\<lambda>l. \<not> affirmative l \<and> \<not> negative l) unrecognised"
    and "affirmative answer \<or> negative answer"
  shows "prompt_copy (unrecognised @ answer # rest) =
     (Inr (affirmative answer), rest,
      concat (map (\<lambda>l. [CopyPrompt, EnterYesOrNo]) unrecognised) @ [CopyPrompt])"
  using assms
proof (induction unrecognised)
  case Nil
  then show ?case
    by (auto simp: affirmative_def negative_def Let_def)
next
  case (Cons l ls)
  then show ?case
    by (simp add: affirmative_def negative_def Let_def)
qed

lemma prompt_copy_unanswered:
  "list_all (\<lambda>l. \<not> affirmative l \<and> \<not> negative l) inp \<Longrightarrow>
   fst (prompt_copy inp) = Inl EOFError"
  by (induction inp) (auto simp: affirmative_def negative_def Let_def split: prod.splits)

lemma prompt_copy_returns:
  "prompt_copy inp = (Inr b, rest, out) \<Longrightarrow>
   \<exists>unrecognised answer.
     inp = unrecognised @ answer # rest \<and>
     list_all (\<lambda>l. \<not> affirmative l \<and> \<not> negative l) unrecognised \<and>
     (affirmative answer \<or> negative answer) \<and> b = affirmative answer"
proof (induction inp arbitrary: out)
  case Nil
  then show ?case by simp
next
  case (Cons l ls)
  show ?case
  proof (cases "affirmative l \<or> negative l")
    case True
    with Cons.prems have "rest = ls \<and> b = affirmative l"
      by (auto simp: affirmative_def negative_def Let_def split: if_splits)
    with True show ?thesis
      by (intro exI [of _ "[]"] exI [of _ l]) simp
  next
    case False
    with Cons.prems obtain out' where "prompt_copy ls = (Inr b, rest, out')"
      by (auto simp: affirmative_def negative_def Let_def split: if_splits prod.splits)
    from Cons.IH [OF this] obtain us a where
      "ls = us @ a # rest" "list_all (\<lambda>l. \<not> affirmative l \<and> \<not> negative l) us"
      "affirmative a \<or> negative a" "b = affirmative a"
      by blast
    with False show ?thesis
      by (intro exI [of _ "l # us"] exI [of _ a]) simp
  qed
qed

lemma confirm_and_copy_declined:
  "fst (prompt_copy inp) \<noteq> Inr True \<Longrightarrow>
   confirm_and_copy d model_data inp fs =
     (case prompt_copy inp of
        (r, rest, out) \<Rightarrow> ((case r of Inl e \<Rightarrow> Some e | Inr b \<Rightarrow> None), rest, fs, out))"
  by (auto simp: confirm_and_copy_def split: prod.splits sum.splits bool.splits)

lemma choose_loop_rest:
  "choose_loop models inp = (r, rest, out) \<Longrightarrow> set rest \<subseteq> set inp"
proof (induction inp arbitrary: r rest out)
  case Nil
  then show ?case by simp
next
  case (Cons l ls)
  show ?case
  proof (cases "choose_loop models ls")
    case (fields r' rest' out')
    from Cons.IH [OF fields] have "set rest' \<subseteq> set ls" .
    with Cons.prems fields show ?thesis
      by (auto simp: Let_def split: if_splits sum.splits)
  qed
qed

lemma choose_models_text_rest:
  "choose_models_text models inp = (r, rest, out) \<Longrightarrow> set rest \<subseteq> set inp"
  by (auto simp: choose_models_text_def split: prod.splits dest: choose_loop_rest)

lemma confirm_and_copy_changes:
  assumes "confirm_and_copy d model_data inp fs = (r, rest, fs', out)" and "fs' \<noteq> fs"
  shows "\<exists>answer \<in> set inp. affirmative answer"
proof -
  from assms obtain rest0 out0 where "prompt_copy inp = (Inr True, rest0, out0)"
    by (auto simp: confirm_and_copy_def split: prod.splits sum.splits bool.splits)
  from prompt_copy_returns [OF this] show ?thesis
    by auto
qed

lemma main_changes:
  assumes "main e = (r, fs', out)" and "fs' \<noteq> files e"
  shows "\<exists>answer \<in> set (stdin e). affirmative answer"
proof -
  define d where "d = resolve_dirs (CUSTOM_OUTPUT_DIR e) (CUSTOM_OLLAMA_BASE_DIR e) (system e) (home e) (files e)"
  from assms obtain models sel rest out1 plan r4 rest4 out4 where
    sel: "(if system e = ''Windows'' \<or> \<not> LISTPICK_AVAILABLE e
           then choose_models_text models (stdin e)
           else (picked_names models (picker_indices e), stdin e, [])) = (sel, rest, out1)"
    and cc: "confirm_and_copy d plan rest (files e) = (r4, rest4, fs', out4)"
    unfolding main_def Let_def d_def
    by (auto split: prod.splits sum.splits if_splits)
  from sel have "set rest \<subseteq> set (stdin e)"
    by (auto split: if_splits dest: choose_models_text_rest)
  moreover from confirm_and_copy_changes [OF cc assms(2)]
  have "\<exists>answer \<in> set rest. affirmative answer" .
  ultimately show ?thesis
    by auto
qed

text \<open>
  Claim C9. The prompt reads lines until one, lower-cased and stripped, is
  \<^verbatim>\<open>y\<close>, \<^verbatim>\<open>yes\<close>, \<^verbatim>\<open>n\<close> or \<^verbatim>\<open>no\<close>: after any number of other lines it returns at the
  first such answer, with true exactly for \<^verbatim>\<open>y\<close> and \<^verbatim>\<open>yes\<close>, and it never returns
  on an input without such a line. When it does not return true, the
  orchestrator leaves the file system as it was and prints nothing beyond the
  prompt: the exporter is not called for any model. Over the whole of \<^verbatim>\<open>main\<close>,
  the file system at the end differs from the one at the start only if some
  line of the input was an affirmative answer.
\<close>

theorem confirmation_gate:
  "(list_all (\<lambda>l. \<not> affirmative l \<and> \<not> negative l) unrecognised \<and>
    (affirmative answer \<or> negative answer) \<longrightarrow>
      prompt_copy (unrecognised @ answer # rest) =
        (Inr (affirmative answer), rest,
         concat (map (\<lambda>l. [CopyPrompt, EnterYesOrNo]) unrecognised) @ [CopyPrompt])) \<and>
   (list_all (\<lambda>l. \<not> affirmative l \<and> \<not> negative l) inp \<longrightarrow>
      fst (prompt_copy inp) = Inl EOFError) \<and>
   (fst (prompt_copy inp) \<noteq> Inr True \<longrightarrow>
      confirm_and_copy d model_data inp fs =
        (case prompt_copy inp of
           (r, rest', out) \<Rightarrow> ((case r of Inl x \<Rightarrow> Some x | Inr b \<Rightarrow> None), rest', fs, out))) \<and>
   (main e = (result, fs', printed) \<and> fs' \<noteq> files e \<longrightarrow>
      (\<exists>l \<in> set (stdin e). affirmative l))"
  using prompt_copy_answer prompt_copy_unanswered confirm_and_copy_declined main_changes
  by blast

text \<open>The theorem of C9: an unrecognised line before \<^verbatim>\<open>YES\<close>; an input without an
  answer; a refusal, which leaves an empty file system empty; and the example
  run, whose confirmed export creates the blob \<^verbatim>\<open>ollama/blobs/sha256-aa\<close>.\<close>

theorem confirmation_gate_witness:
  "list_all (\<lambda>l. \<not> affirmative l \<and> \<not> negative l) [''maybe''] \<and>
   (affirmative '' YES '' \<or> negative '' YES '') \<and>
   prompt_copy ([''maybe''] @ '' YES '' # [''n'']) =
     (Inr True, [''n''], [CopyPrompt, EnterYesOrNo, CopyPrompt]) \<and>
   list_all (\<lambda>l. \<not> affirmative l \<and> \<not> negative l) [''maybe'', ''ok''] \<and>
   fst (prompt_copy [''maybe'', ''ok'']) = Inl EOFError \<and>
   fst (prompt_copy [''No'']) \<noteq> Inr True \<and>
   confirm_and_copy (resolve_dirs [] [] ''Linux'' [] Map.empty)
     [(''llama3:8b'', [''manifest''], [''sha256:aa''])] [''No''] Map.empty =
     (None, [], Map.empty, [CopyPrompt]) \<and>
   fst (snd (main example_env)) \<noteq> files example_env \<and>
   (\<exists>l \<in> set (stdin example_env). affirmative l)"
proof -
  have h1: "list_all (\<lambda>l. \<not> affirmative l \<and> \<not> negative l) [''maybe'']"
    by code_simp
  have h2: "affirmative '' YES ''"
    by code_simp
  have h3: "list_all (\<lambda>l. \<not> affirmative l \<and> \<not> negative l) [''maybe'', ''ok'']"
    by code_simp
  have h4: "fst (prompt_copy [''No'']) \<noteq> Inr True"
    by code_simp
  have p4: "prompt_copy [''No''] = (Inr False, [], [CopyPrompt])"
    by code_simp
  have "fst (snd (main example_env)) [''ollama'', ''blobs'', ''sha256-aa''] = Some (File ''blob aa'')"
    by code_simp
  moreover have "files example_env [''ollama'', ''blobs'', ''sha256-aa''] = None"
    by (simp add: example_env_def)
  ultimately have h5: "fst (snd (main example_env)) \<noteq> files example_env"
    by (metis option.distinct(1))
  have m: "main example_env =
      (fst (main example_env), fst (snd (main example_env)), snd (snd (main example_env)))"
    by simp
  note g = confirmation_gate
    [where unrecognised = "[''maybe'']" and answer = "'' YES ''" and rest = "[''n'']"
       and inp = "[''maybe'', ''ok'']" and e = example_env
       and result = "fst (main example_env)" and fs' = "fst (snd (main example_env))"
       and printed = "snd (snd (main example_env))"]
  note g' = confirmation_gate
    [where inp = "[''No'']" and d = "resolve_dirs [] [] ''Linux'' [] Map.empty"
       and model_data = "[(''llama3:8b'', [''manifest''], [''sha256:aa''])]" and fs = Map.empty]
  from g h1 h2 have c1: "prompt_copy ([''maybe''] @ '' YES '' # [''n'']) =
     (Inr True, [''n''], [CopyPrompt, EnterYesOrNo, CopyPrompt])"
    by simp
  from g h3 have c2: "fst (prompt_copy [''maybe'', ''ok'']) = Inl EOFError"
    by blast
  from g' h4 p4 have c3: "confirm_and_copy (resolve_dirs [] [] ''Linux'' [] Map.empty)
     [(''llama3:8b'', [''manifest''], [''sha256:aa''])] [''No''] Map.empty =
     (None, [], Map.empty, [CopyPrompt])"
    by simp
  from g m h5 have c4: "\<exists>l \<in> set (stdin example_env). affirmative l"
    by blast
  from h1 h2 h3 h4 h5 c1 c2 c3 c4 show ?thesis
    by blast
qed

section \<open>Properties of the numeric-prompt selection\<close>

lemma select_choices_valid:
  "list_all (\<lambda>c. 1 \<le> c \<and> c \<le> int (length models)) choices \<Longrightarrow>
   select_choices models choices selected =
     Inr (selected @ map (\<lambda>c. row_name (models ! nat (c - 1))) choices)"
  by (induction choices arbitrary: selected) auto

lemma select_choices_invalid:
  "list_all (\<lambda>c. 1 \<le> c \<and> c \<le> int (length models)) good \<Longrightarrow>
   \<not> (1 \<le> bad \<and> bad \<le> int (length models)) \<Longrightarrow>
   select_choices models (good @ bad # others) selected = Inl bad"
  by (induction good arbitrary: selected) auto

lemma parse_choices_length:
  "parse_choices ps = Inr cs \<Longrightarrow> length cs = length ps"
  by (induction ps arbitrary: cs) (auto split: option.splits sum.splits)

lemma split_on_not_Nil: "split_on sep s \<noteq> []"
  by (induction s) (auto split: list.splits)

lemma parse_choices_split_not_Nil:
  "parse_choices (split_on sep s) = Inr cs \<Longrightarrow> cs \<noteq> []"
  using parse_choices_length [of "split_on sep s" cs] split_on_not_Nil [of sep s]
  by auto

lemma digits_value_no_digit:
  "\<forall>c \<in> set s. \<not> is_digit c \<Longrightarrow> digits_value acc False s = None"
  by (cases s) auto

lemma set_strip: "set (strip s) \<subseteq> set s"
proof -
  have "set (rstrip s) \<subseteq> set s"
    unfolding rstrip_def using set_dropWhileD [of _ isspace "rev s"] by auto
  moreover have "set (lstrip t) \<subseteq> set t" for t
    unfolding lstrip_def using set_dropWhileD [of _ isspace t] by auto
  ultimately show ?thesis
    unfolding strip_def by blast
qed

lemma py_int_no_digit:
  assumes "\<forall>c \<in> set s. \<not> is_digit c"
  shows "py_int s = None"
proof -
  from assms set_strip [of s] have nd: "\<forall>c \<in> set (strip s). \<not> is_digit c"
    by blast
  then have "filter is_digit (strip s) = []"
    by (simp add: filter_empty_conv)
  moreover have "digits_value 0 False (strip s) = None"
    using nd by (rule digits_value_no_digit)
  moreover have "digits_value 0 False (tl (strip s)) = None"
    using nd by (cases "strip s") (auto intro: digits_value_no_digit)
  ultimately show ?thesis
    by (auto simp: py_int_def Let_def split: list.splits)
qed

lemma split_on_hd_subset: "set (hd (split_on sep s)) \<subseteq> set s"
  by (induction s) (auto split: list.splits)

lemma parse_choices_no_digit:
  assumes "\<forall>c \<in> set s. \<not> is_digit c"
  shows "parse_choices (split_on sep s) = Inl ValueError"
proof -
  obtain p ps where sp: "split_on sep s = p # ps"
    using split_on_not_Nil [of sep s] by (cases "split_on sep s") auto
  with split_on_hd_subset [of sep s] assms have "\<forall>c \<in> set p. \<not> is_digit c"
    by auto
  with set_strip [of p] have "\<forall>c \<in> set (strip p). \<not> is_digit c"
    by blast
  then have "py_int (strip p) = None"
    by (rule py_int_no_digit)
  with sp show ?thesis
    by simp
qed

lemma lower_chr_digit: "is_digit c \<Longrightarrow> lower_chr c = c"
  by (simp add: is_digit_def lower_chr_def)

lemma lower_all_no_digit:
  assumes "lower s = ''all''"
  shows "\<forall>c \<in> set s. \<not> is_digit c"
proof
  fix c assume c: "c \<in> set s"
  then have "lower_chr c \<in> set (lower s)"
    by (simp add: lower_def)
  with assms have "lower_chr c = CHR ''a'' \<or> lower_chr c = CHR ''l''"
    by auto
  then show "\<not> is_digit c"
    using lower_chr_digit [of c] by (auto simp: is_digit_def)
qed

lemma choose_loop_all:
  assumes "lower (strip line) = ''all''"
  shows "choose_loop models (line # rest) = (Inr (map row_name models), rest, [SelectPrompt])"
proof -
  from assms have "strip line \<noteq> []"
    by (auto simp: lower_def)
  with assms show ?thesis
    by (simp add: Let_def)
qed

lemma choose_loop_parsed:
  assumes "parse_choices (split_on (CHR '','') (strip line)) = Inr choices"
  shows "choose_loop models (line # rest) =
     (case select_choices models choices [] of
        Inl choice \<Rightarrow>
          (case choose_loop models rest of
             (r, rest', out) \<Rightarrow> (r, rest', SelectPrompt # InvalidChoice choice # out))
      | Inr selected_models \<Rightarrow>
          if selected_models \<noteq> [] then (Inr selected_models, rest, [SelectPrompt])
          else (case choose_loop models rest of
                  (r, rest', out) \<Rightarrow> (r, rest', SelectPrompt # out)))"
proof -
  have "strip line \<noteq> []"
    using assms by auto (simp add: py_int_def strip_def lstrip_def rstrip_def)
  moreover have "lower (strip line) \<noteq> ''all''"
    using assms parse_choices_no_digit [OF lower_all_no_digit, of "strip line" "CHR '',''"]
    by auto
  ultimately show ?thesis
    using assms by (simp add: Let_def)
qed

lemma choose_loop_valid:
  assumes "parse_choices (split_on (CHR '','') (strip line)) = Inr choices"
    and "list_all (\<lambda>c. 1 \<le> c \<and> c \<le> int (length models)) choices"
  shows "choose_loop models (line # rest) =
     (Inr (map (\<lambda>c. row_name (models ! nat (c - 1))) choices), rest, [SelectPrompt])"
  using choose_loop_parsed [OF assms(1)] select_choices_valid [OF assms(2), of "[]"]
    parse_choices_split_not_Nil [OF assms(1)]
  by simp

lemma choose_loop_invalid:
  assumes "parse_choices (split_on (CHR '','') (strip line)) = Inr (good @ bad # others)"
    and "list_all (\<lambda>c. 1 \<le> c \<and> c \<le> int (length models)) good"
    and "\<not> (1 \<le> bad \<and> bad \<le> int (length models))"
  shows "choose_loop models (line # rest) =
     (case choose_loop models rest of
        (r, rest', out) \<Rightarrow> (r, rest', SelectPrompt # InvalidChoice bad # out))"
  using choose_loop_parsed [OF assms(1)] select_choices_invalid [OF assms(2,3), of others "[]"]
  by simp

text \<open>
  Claim C3. When every comma-separated piece of the stripped input is an integer
  and all of them lie in \<open>[1, rowCount]\<close>, the prompt returns the names of those
  rows in the order typed, one name for each number, so a number typed twice
  gives its name twice. When the first number out of range is \<open>bad\<close>, the input is
  rejected as a whole: the message for \<open>bad\<close> is printed and the result is the one
  the loop gives on the lines that follow, with none of the names of this input
  in it. The input \<^verbatim>\<open>all\<close>, in any case, returns every name in the listed order,
  and an empty input returns the empty list.
\<close>

theorem choose_models_text_selection:
  "(parse_choices (split_on (CHR '','') (strip line)) = Inr choices \<and>
    list_all (\<lambda>c. 1 \<le> c \<and> c \<le> int (length models)) choices \<longrightarrow>
      choose_models_text models (line # rest) =
        (Inr (map (\<lambda>c. row_name (models ! nat (c - 1))) choices), rest,
         TableHeader # map (\<lambda>(i, m). TableRow (Suc i) m) (enumerate 0 models) @
         [SelectPrompt])) \<and>
   (parse_choices (split_on (CHR '','') (strip line)) = Inr (good @ bad # others) \<and>
    list_all (\<lambda>c. 1 \<le> c \<and> c \<le> int (length models)) good \<and>
    \<not> (1 \<le> bad \<and> bad \<le> int (length models)) \<longrightarrow>
      choose_models_text models (line # rest) =
        (case choose_loop models rest of
           (r, rest', out) \<Rightarrow>
             (r, rest',
              TableHeader # map (\<lambda>(i, m). TableRow (Suc i) m) (enumerate 0 models) @
              SelectPrompt # InvalidChoice bad # out))) \<and>
   (lower (strip line) = ''all'' \<longrightarrow>
      choose_models_text models (line # rest) =
        (Inr (map row_name models), rest,
         TableHeader # map (\<lambda>(i, m). TableRow (Suc i) m) (enumerate 0 models) @
         [SelectPrompt])) \<and>
   (strip line = [] \<longrightarrow>
      choose_models_text models (line # rest) =
        (Inr [], rest,
         TableHeader # map (\<lambda>(i, m). TableRow (Suc i) m) (enumerate 0 models) @
         [SelectPrompt]))"
proof (intro conjI impI)
  assume "parse_choices (split_on (CHR '','') (strip line)) = Inr choices \<and>
    list_all (\<lambda>c. 1 \<le> c \<and> c \<le> int (length models)) choices"
  then have "choose_loop models (line # rest) =
     (Inr (map (\<lambda>c. row_name (models ! nat (c - 1))) choices), rest, [SelectPrompt])"
    using choose_loop_valid [of line choices models rest] by blast
  then show "choose_models_text models (line # rest) =
        (Inr (map (\<lambda>c. row_name (models ! nat (c - 1))) choices), rest,
         TableHeader # map (\<lambda>(i, m). TableRow (Suc i) m) (enumerate 0 models) @
         [SelectPrompt])"
    by (simp add: choose_models_text_def)
next
  assume "parse_choices (split_on (CHR '','') (strip line)) = Inr (good @ bad # others) \<and>
    list_all (\<lambda>c. 1 \<le> c \<and> c \<le> int (length models)) good \<and>
    \<not> (1 \<le> bad \<and> bad \<le> int (length models))"
  then have "choose_loop models (line # rest) =
     (case choose_loop models rest of
        (r, rest', out) \<Rightarrow> (r, rest', SelectPrompt # InvalidChoice bad # out))"
    by (intro choose_loop_invalid) auto
  then show "choose_models_text models (line # rest) =
        (case choose_loop models rest of
           (r, rest', out) \<Rightarrow>
             (r, rest',
              TableHeader # map (\<lambda>(i, m). TableRow (Suc i) m) (enumerate 0 models) @
              SelectPrompt # InvalidChoice bad # out))"
    by (simp add: choose_models_text_def split: prod.splits)
next
  assume "lower (strip line) = ''all''"
  then have "choose_loop models (line # rest) =
      (Inr (map row_name models), rest, [SelectPrompt])"
    by (rule choose_loop_all)
  then show "choose_models_text models (line # rest) =
        (Inr (map row_name models), rest,
         TableHeader # map (\<lambda>(i, m). TableRow (Suc i) m) (enumerate 0 models) @
         [SelectPrompt])"
    by (simp add: choose_models_text_def)
next
  assume "strip line = []"
  then show "choose_models_text models (line # rest) =
        (Inr [], rest,
         TableHeader # map (\<lambda>(i, m). TableRow (Suc i) m) (enumerate 0 models) @
         [SelectPrompt])"
    by (simp add: choose_models_text_def)
qed

text \<open>The theorem of C3 on the inventory of five rows: \<^verbatim>\<open>1,3\<close> and \<^verbatim>\<open>3, 1 ,3\<close> give
  the names in the order typed; \<^verbatim>\<open>1,9\<close> is rejected and the empty line that
  follows cancels; \<^verbatim>\<open>ALL\<close> gives every name; a blank line gives none.\<close>

theorem choose_models_text_selection_witness:
  "parse_choices (split_on (CHR '','') (strip ''1,3'')) = Inr [1, 3] \<and>
   list_all (\<lambda>c. 1 \<le> c \<and> c \<le> int (length example_models)) [1, 3] \<and>
   fst (choose_models_text example_models [''1,3'']) = Inr [''gemma:2b'', ''mistral:7b''] \<and>
   fst (choose_models_text example_models [''3, 1 ,3'']) =
     Inr [''mistral:7b'', ''gemma:2b'', ''mistral:7b''] \<and>
   parse_choices (split_on (CHR '','') (strip ''1,9'')) = Inr ([1] @ 9 # []) \<and>
   list_all (\<lambda>c. 1 \<le> c \<and> c \<le> int (length example_models)) [1] \<and>
   \<not> (1 \<le> (9::int) \<and> 9 \<le> int (length example_models)) \<and>
   fst (choose_models_text example_models [''1,9'', '''']) = Inr [] \<and>
   InvalidChoice 9 \<in> set (snd (snd (choose_models_text example_models [''1,9'', '''']))) \<and>
   lower (strip '' ALL '') = ''all'' \<and>
   fst (choose_models_text example_models ['' ALL '']) =
     Inr [''gemma:2b'', ''llama3:8b'', ''mistral:7b'', ''phi3:mini'', ''qwen2:7b''] \<and>
   strip ''  '' = [] \<and>
   fst (choose_models_text example_models [''  '']) = Inr []"
proof -
  have p1: "parse_choices (split_on (CHR '','') (strip ''1,3'')) = Inr [1, 3]"
    by code_simp
  have v1: "list_all (\<lambda>c. 1 \<le> c \<and> c \<le> int (length example_models)) [1, 3]"
    by code_simp
  have n1: "map (\<lambda>c. row_name (example_models ! nat (c - 1))) [1, 3] =
      [''gemma:2b'', ''mistral:7b'']"
    by code_simp
  have p2: "parse_choices (split_on (CHR '','') (strip ''3, 1 ,3'')) = Inr [3, 1, 3]"
    by code_simp
  have v2: "list_all (\<lambda>c. 1 \<le> c \<and> c \<le> int (length example_models)) [3, 1, 3]"
    by code_simp
  have n2: "map (\<lambda>c. row_name (example_models ! nat (c - 1))) [3, 1, 3] =
      [''mistral:7b'', ''gemma:2b'', ''mistral:7b'']"
    by code_simp
  have p3: "parse_choices (split_on (CHR '','') (strip ''1,9'')) = Inr ([1] @ 9 # [])"
    by code_simp
  have v3: "list_all (\<lambda>c. 1 \<le> c \<and> c \<le> int (length example_models)) [1]"
    by code_simp
  have b3: "\<not> (1 \<le> (9::int) \<and> 9 \<le> int (length example_models))"
    by code_simp
  have l3: "choose_loop example_models [''''] = (Inr [], [], [SelectPrompt])"
    by code_simp
  have a4: "lower (strip '' ALL '') = ''all''"
    by code_simp
  have n4: "map row_name example_models =
      [''gemma:2b'', ''llama3:8b'', ''mistral:7b'', ''phi3:mini'', ''qwen2:7b'']"
    by code_simp
  have e5: "strip ''  '' = []"
    by code_simp
  note t = choose_models_text_selection [where models = example_models]
  from t [where line = "''1,3''" and choices = "[1, 3]" and rest = "[]"] p1 v1 n1
  have c1: "fst (choose_models_text example_models [''1,3'']) = Inr [''gemma:2b'', ''mistral:7b'']"
    by simp
  from t [where line = "''3, 1 ,3''" and choices = "[3, 1, 3]" and rest = "[]"] p2 v2 n2
  have c2: "fst (choose_models_text example_models [''3, 1 ,3'']) =
     Inr [''mistral:7b'', ''gemma:2b'', ''mistral:7b'']"
    by simp
  from t [where line = "''1,9''" and good = "[1]" and bad = 9 and others = "[]"
      and rest = "['''']"] p3 v3 b3 l3
  have c3: "fst (choose_models_text example_models [''1,9'', '''']) = Inr [] \<and>
      InvalidChoice 9 \<in> set (snd (snd (choose_models_text example_models [''1,9'', ''''])))"
    by simp
  from t [where line = "'' ALL ''" and rest = "[]"] a4 n4
  have c4: "fst (choose_models_text example_models ['' ALL '']) =
     Inr [''gemma:2b'', ''llama3:8b'', ''mistral:7b'', ''phi3:mini'', ''qwen2:7b'']"
    by simp
  from t [where line = "''  ''" and rest = "[]"] e5
  have c5: "fst (choose_models_text example_models [''  '']) = Inr []"
    by simp
  from p1 v1 c1 c2 p3 v3 b3 c3 a4 c4 e5 c5 show ?thesis
    by blast
qed

section \<open>Properties of the inventory reader\<close>

lemma isspace_LF: "isspace (CHR 0x0A)"
  by (simp add: isspace_def)

lemma linebreak_LF: "is_linebreak (CHR 0x0A)"
  by (simp add: is_linebreak_def)

lemma linebreak_CR: "is_linebreak (CHR 0x0D)"
  by (simp add: is_linebreak_def)

lemma rstrip_append_spaces:
  "\<forall>c \<in> set t. isspace c \<Longrightarrow> rstrip (s @ t) = rstrip s"
  using dropWhile_append2 [of "rev t" isspace "rev s"] by (simp add: rstrip_def)

lemma rstrip_append_nonblank:
  assumes "\<exists>c \<in> set l. \<not> isspace c"
  shows "rstrip (s @ l) = s @ rstrip l"
proof -
  from assms obtain c where "c \<in> set (rev l)" "\<not> isspace c"
    by auto
  then have "dropWhile isspace (rev l @ rev s) = dropWhile isspace (rev l) @ rev s"
    by (rule dropWhile_append1)
  then show ?thesis
    by (simp add: rstrip_def)
qed

lemma lstrip_append_nonblank:
  assumes "\<exists>c \<in> set l. \<not> isspace c"
  shows "lstrip (l @ s) = lstrip l @ s"
proof -
  from assms obtain c where "c \<in> set l" "\<not> isspace c"
    by auto
  then show ?thesis
    unfolding lstrip_def by (rule dropWhile_append1)
qed

lemma rstrip_decompose: "\<exists>w. l = rstrip l @ w \<and> (\<forall>c \<in> set w. isspace c)"
proof -
  have "rev l = takeWhile isspace (rev l) @ dropWhile isspace (rev l)"
    by simp
  then have "l = rev (dropWhile isspace (rev l)) @ rev (takeWhile isspace (rev l))"
    by (metis rev_append rev_rev_ident)
  moreover have "\<forall>c \<in> set (rev (takeWhile isspace (rev l))). isspace c"
    by (auto dest: set_takeWhileD)
  ultimately show ?thesis
    unfolding rstrip_def by blast
qed

lemma lstrip_decompose: "\<exists>w. l = w @ lstrip l \<and> (\<forall>c \<in> set w. isspace c)"
proof -
  have "l = takeWhile isspace l @ dropWhile isspace l"
    by simp
  moreover have "\<forall>c \<in> set (takeWhile isspace l). isspace c"
    by (auto dest: set_takeWhileD)
  ultimately show ?thesis
    unfolding lstrip_def by blast
qed

lemma rstrip_nonblank:
  assumes "\<exists>c \<in> set l. \<not> isspace c"
  shows "\<exists>c \<in> set (rstrip l). \<not> isspace c"
proof -
  obtain w where "l = rstrip l @ w" "\<forall>c \<in> set w. isspace c"
    using rstrip_decompose by blast
  with assms show ?thesis
    by (metis Un_iff set_append)
qed

lemma lstrip_nonblank:
  assumes "\<exists>c \<in> set l. \<not> isspace c"
  shows "\<exists>c \<in> set (lstrip l). \<not> isspace c"
proof -
  obtain w where "l = w @ lstrip l" "\<forall>c \<in> set w. isspace c"
    using lstrip_decompose by blast
  with assms show ?thesis
    by (metis Un_iff set_append)
qed

lemma set_rstrip: "set (rstrip l) \<subseteq> set l"
  unfolding rstrip_def using set_dropWhileD [of _ isspace "rev l"] by auto

lemma set_lstrip: "set (lstrip l) \<subseteq> set l"
  unfolding lstrip_def using set_dropWhileD [of _ isspace l] by auto

subsection \<open>Tokens\<close>

lemma split_ws_spaces: "\<forall>c \<in> set t. isspace c \<Longrightarrow> split_ws t = []"
  by (induction t) auto

lemma split_ws_Cons2:
  "split_ws (c # d # r) =
     (if isspace c then split_ws (d # r)
      else if isspace d then [c] # split_ws (d # r)
      else (case split_ws (d # r) of [] \<Rightarrow> [[c]] | w # ws \<Rightarrow> (c # w) # ws))"
  by (simp del: split_ws.simps add: split_ws.simps(2) [of c "d # r"])

lemma split_ws_append_spaces:
  "\<forall>c \<in> set t. isspace c \<Longrightarrow> split_ws (s @ t) = split_ws s"
proof (induction s)
  case Nil
  then show ?case by (simp add: split_ws_spaces)
next
  case (Cons c cs)
  show ?case
  proof (cases cs)
    case Nil
    with Cons.prems show ?thesis
      by (cases t) (auto simp: split_ws_spaces)
  next
    case (Cons d ds)
    from Cons.IH [OF Cons.prems] Cons
    have "split_ws (d # ds @ t) = split_ws (d # ds)"
      by simp
    with Cons show ?thesis
      by (simp del: split_ws.simps add: split_ws_Cons2)
  qed
qed

lemma split_ws_rstrip: "split_ws (rstrip l) = split_ws l"
proof -
  obtain w where "l = rstrip l @ w" "\<forall>c \<in> set w. isspace c"
    using rstrip_decompose by blast
  then show ?thesis
    by (metis split_ws_append_spaces)
qed

lemma split_ws_prepend_spaces:
  "\<forall>c \<in> set w. isspace c \<Longrightarrow> split_ws (w @ s) = split_ws s"
  by (induction w) auto

lemma split_ws_lstrip: "split_ws (lstrip l) = split_ws l"
proof -
  obtain w where "l = w @ lstrip l" "\<forall>c \<in> set w. isspace c"
    using lstrip_decompose by blast
  then show ?thesis
    by (metis split_ws_prepend_spaces)
qed

lemma parse_line_rstrip: "parse_line (rstrip l) = parse_line l"
  by (simp add: parse_line_def split_ws_rstrip)

lemma parse_line_blank: "\<forall>c \<in> set l. isspace c \<Longrightarrow> parse_line l = None"
  by (simp add: parse_line_def split_ws_spaces)

subsection \<open>Lines\<close>

lemma splitlines_one:
  "l \<noteq> [] \<Longrightarrow> \<forall>c \<in> set l. \<not> is_linebreak c \<Longrightarrow> splitlines l = [l]"
proof (induction l rule: splitlines.induct)
  case 1
  then show ?case by simp
next
  case (2 c)
  then show ?case by simp
next
  case (3 c d cs)
  then have "c \<noteq> CHR 0x0D"
    using linebreak_CR by auto
  with 3 show ?case
    by (simp add: prepend_chr_def)
qed

lemma splitlines_first:
  "\<forall>c \<in> set l. \<not> is_linebreak c \<Longrightarrow> r \<noteq> [] \<Longrightarrow>
   splitlines (l @ CHR 0x0A # r) = l # splitlines r"
proof (induction l)
  case Nil
  then obtain d ds where "r = d # ds"
    by (cases r) auto
  then show ?case
    by (simp add: linebreak_LF)
next
  case (Cons c l)
  then have c: "\<not> is_linebreak c" "c \<noteq> CHR 0x0D"
    using linebreak_CR by auto
  obtain d ds where dd: "l @ CHR 0x0A # r = d # ds"
    by (cases "l @ CHR 0x0A # r") auto
  have "splitlines ((c # l) @ CHR 0x0A # r) = prepend_chr c (splitlines (l @ CHR 0x0A # r))"
    using c dd by simp
  with Cons show ?case
    by (simp add: prepend_chr_def)
qed

lemma join_lines_Cons:
  "ls \<noteq> [] \<Longrightarrow> join [CHR 0x0A] (l # ls) = l @ CHR 0x0A # join [CHR 0x0A] ls"
  by (cases ls) auto

lemma join_lines_snoc:
  "ls \<noteq> [] \<Longrightarrow> join [CHR 0x0A] (ls @ [l]) = join [CHR 0x0A] ls @ CHR 0x0A # l"
proof (induction ls)
  case Nil
  then show ?case by simp
next
  case (Cons a ls)
  then show ?case
    by (cases ls) auto
qed

lemma join_lines_not_Nil:
  "ls \<noteq> [] \<Longrightarrow> last ls \<noteq> [] \<Longrightarrow> join [CHR 0x0A] ls \<noteq> []"
  by (induction ls rule: join.induct) auto

lemma splitlines_join:
  "ls \<noteq> [] \<Longrightarrow> last ls \<noteq> [] \<Longrightarrow> \<forall>l \<in> set ls. \<forall>c \<in> set l. \<not> is_linebreak c \<Longrightarrow>
   splitlines (join [CHR 0x0A] ls) = ls"
proof (induction ls)
  case Nil
  then show ?case by simp
next
  case (Cons l ls)
  show ?case
  proof (cases ls)
    case Nil
    with Cons.prems show ?thesis
      by (simp add: splitlines_one)
  next
    case (Cons q qs)
    with Cons.prems have ne: "join [CHR 0x0A] ls \<noteq> []"
      by (intro join_lines_not_Nil) auto
    from Cons Cons.prems Cons.IH have "splitlines (join [CHR 0x0A] ls) = ls"
      by auto
    with ne Cons Cons.prems show ?thesis
      by (simp add: join_lines_Cons splitlines_first)
  qed
qed

lemma join_lines_append_blanks:
  "ls \<noteq> [] \<Longrightarrow> \<forall>b \<in> set blanks. \<forall>c \<in> set b. isspace c \<Longrightarrow>
   \<exists>w. join [CHR 0x0A] (ls @ blanks) = join [CHR 0x0A] ls @ w \<and> (\<forall>c \<in> set w. isspace c)"
proof (induction blanks rule: rev_induct)
  case Nil
  then show ?case by simp
next
  case (snoc b blanks)
  then obtain w where w: "join [CHR 0x0A] (ls @ blanks) = join [CHR 0x0A] ls @ w"
      "\<forall>c \<in> set w. isspace c"
    by auto
  have "join [CHR 0x0A] (ls @ blanks @ [b]) = join [CHR 0x0A] (ls @ blanks) @ CHR 0x0A # b"
    using join_lines_snoc [of "ls @ blanks" b] snoc.prems by simp
  with w have "join [CHR 0x0A] (ls @ blanks @ [b]) = join [CHR 0x0A] ls @ (w @ CHR 0x0A # b)"
    by simp
  moreover have "\<forall>c \<in> set (w @ CHR 0x0A # b). isspace c"
    using w snoc.prems isspace_LF by auto
  ultimately show ?case
    by (metis append_assoc)
qed

lemma map_filter_append:
  "List.map_filter f (xs @ ys) = List.map_filter f xs @ List.map_filter f ys"
  by (simp add: List.map_filter_def)

lemma map_filter_blanks:
  "\<forall>b \<in> set blanks. \<forall>c \<in> set b. isspace c \<Longrightarrow> List.map_filter parse_line blanks = []"
  by (induction blanks) (auto simp: List.map_filter_simps parse_line_blank)

lemma data_rows_of_output:
  assumes lines: "\<forall>l \<in> set (header # data). \<forall>c \<in> set l. \<not> is_linebreak c"
    and header: "\<exists>c \<in> set header. \<not> isspace c"
    and trailer: "\<forall>c \<in> set trailer. isspace c"
  shows "List.map_filter parse_line
           (drop 1 (splitlines (strip (join [CHR 0x0A] (header # data) @ trailer)))) =
         List.map_filter parse_line data"
proof -
  let ?nonblank = "\<lambda>l. \<exists>c \<in> set l. \<not> isspace c"
  have "\<exists>l \<in> set (header # data). ?nonblank l"
    using header by auto
  then obtain pre l blanks where
    dec: "header # data = pre @ l # blanks" and l: "?nonblank l"
    and blanks: "\<forall>b \<in> set blanks. \<not> ?nonblank b"
    using split_list_last_prop [of "header # data" ?nonblank] by blast
  have lb: "\<forall>c \<in> set l. \<not> is_linebreak c"
    using lines dec by (metis in_set_conv_decomp)
  obtain w where w: "join [CHR 0x0A] ((pre @ [l]) @ blanks) = join [CHR 0x0A] (pre @ [l]) @ w"
      "\<forall>c \<in> set w. isspace c"
    using join_lines_append_blanks [of "pre @ [l]" blanks] blanks by auto
  have r1: "rstrip (join [CHR 0x0A] (header # data) @ trailer) =
      rstrip (join [CHR 0x0A] (pre @ [l]))"
  proof -
    have "\<forall>c \<in> set (w @ trailer). isspace c"
      using w trailer by auto
    then have "rstrip (join [CHR 0x0A] (pre @ [l]) @ (w @ trailer)) =
        rstrip (join [CHR 0x0A] (pre @ [l]))"
      by (rule rstrip_append_spaces)
    with dec w show ?thesis
      by simp
  qed
  have rl: "?nonblank (rstrip l)" "rstrip l \<noteq> []"
    using rstrip_nonblank [OF l] by auto
  have rlb: "\<forall>c \<in> set (rstrip l). \<not> is_linebreak c"
    using lb set_rstrip [of l] by auto
  show ?thesis
  proof (cases pre)
    case Nil
    with dec have hd: "header = l" "data = blanks"
      by auto
    have "strip (join [CHR 0x0A] (header # data) @ trailer) = lstrip (rstrip l)"
      using r1 Nil by (simp add: strip_def)
    moreover have "lstrip (rstrip l) \<noteq> []"
      using lstrip_nonblank [OF rl(1)] by auto
    moreover have "\<forall>c \<in> set (lstrip (rstrip l)). \<not> is_linebreak c"
      using rlb set_lstrip [of "rstrip l"] by auto
    ultimately have "splitlines (strip (join [CHR 0x0A] (header # data) @ trailer)) =
        [lstrip (rstrip l)]"
      by (simp add: splitlines_one)
    moreover have "List.map_filter parse_line data = []"
      using hd blanks by (intro map_filter_blanks) auto
    ultimately show ?thesis
      by (simp add: List.map_filter_simps)
  next
    case (Cons h pre')
    with dec have hd: "h = header" "data = pre' @ l # blanks"
      by auto
    have j1: "join [CHR 0x0A] (pre @ [l]) = (join [CHR 0x0A] pre @ [CHR 0x0A]) @ l"
      using join_lines_snoc [of pre l] Cons by simp
    have "rstrip (join [CHR 0x0A] (pre @ [l])) = (join [CHR 0x0A] pre @ [CHR 0x0A]) @ rstrip l"
      unfolding j1 using l by (rule rstrip_append_nonblank)
    also have "\<dots> = join [CHR 0x0A] (pre @ [rstrip l])"
      using join_lines_snoc [of pre "rstrip l"] Cons by simp
    also have "\<dots> = header @ CHR 0x0A # join [CHR 0x0A] (pre' @ [rstrip l])"
      using Cons hd by (simp add: join_lines_Cons)
    finally have r2: "rstrip (join [CHR 0x0A] (pre @ [l])) =
        header @ CHR 0x0A # join [CHR 0x0A] (pre' @ [rstrip l])" .
    have "strip (join [CHR 0x0A] (header # data) @ trailer) =
        lstrip header @ CHR 0x0A # join [CHR 0x0A] (pre' @ [rstrip l])"
      using r1 r2 lstrip_append_nonblank [OF header] by (simp add: strip_def)
    also have "\<dots> = join [CHR 0x0A] (lstrip header # pre' @ [rstrip l])"
      by (simp add: join_lines_Cons)
    finally have s: "strip (join [CHR 0x0A] (header # data) @ trailer) =
        join [CHR 0x0A] (lstrip header # pre' @ [rstrip l])" .
    have "\<forall>x \<in> set (lstrip header # pre' @ [rstrip l]). \<forall>c \<in> set x. \<not> is_linebreak c"
    proof
      fix x assume "x \<in> set (lstrip header # pre' @ [rstrip l])"
      then consider "x = lstrip header" | "x \<in> set pre'" | "x = rstrip l"
        by auto
      then show "\<forall>c \<in> set x. \<not> is_linebreak c"
      proof cases
        case 1
        then show ?thesis
          using lines set_lstrip [of header] by auto
      next
        case 2
        then show ?thesis
          using lines hd by auto
      next
        case 3
        then show ?thesis
          using rlb by simp
      qed
    qed
    then have "splitlines (join [CHR 0x0A] (lstrip header # pre' @ [rstrip l])) =
        lstrip header # pre' @ [rstrip l]"
      using rl(2) by (intro splitlines_join) auto
    with s have "drop 1 (splitlines (strip (join [CHR 0x0A] (header # data) @ trailer))) =
        pre' @ [rstrip l]"
      by simp
    moreover have "List.map_filter parse_line (pre' @ [rstrip l]) =
        List.map_filter parse_line data"
      using hd map_filter_blanks [of blanks] blanks
      by (simp add: map_filter_append List.map_filter_simps parse_line_rstrip
          split: option.splits)
    ultimately show ?thesis
      by simp
  qed
qed

lemma map_filter_parse_line:
  "List.map_filter parse_line ls =
     map (\<lambda>l. \<lparr> row_name = split_ws l ! 0, row_id = split_ws l ! 1,
                row_size = split_ws l ! 2 @ '' '' @ split_ws l ! 3,
                row_modified = join '' '' (drop 4 (split_ws l)) \<rparr>)
       (filter (\<lambda>l. 4 \<le> length (split_ws l)) ls)"
  by (induction ls) (auto simp: List.map_filter_simps parse_line_def Let_def)

text \<open>
  Claim C2. The output is a header line, which holds at least one character that
  is no whitespace, then the data lines, each separated from the one before by a
  line feed, then any whitespace (the final line feed). The reader returns one
  row for each data line of at least four tokens, and none for the other lines:
  token 0 is the name, token 1 the id, tokens 2 and 3 with a space between them
  the size, the remaining tokens joined by spaces the modified string. The rows
  come back sorted in ascending order of the names with their case ignored: the
  sort key is the name with every upper-case letter replaced by its lower-case
  one, so \<^verbatim>\<open>A\<close> to \<^verbatim>\<open>Z\<close> count as \<^verbatim>\<open>a\<close> to \<^verbatim>\<open>z\<close> and every other ASCII character as
  itself. When no data line has four tokens the result is empty.
\<close>

theorem get_installed_models_rows:
  "lower ''ABCDEFGHIJKLMNOPQRSTUVWXYZ'' = ''abcdefghijklmnopqrstuvwxyz'' \<and>
   lower ''abcdefghijklmnopqrstuvwxyz0123456789:.-_/'' =
     ''abcdefghijklmnopqrstuvwxyz0123456789:.-_/'' \<and>
   ((\<forall>l \<in> set (header # data). \<forall>c \<in> set l. \<not> is_linebreak c) \<and>
    (\<exists>c \<in> set header. \<not> isspace c) \<and>
    (\<forall>c \<in> set trailer. isspace c) \<longrightarrow>
      (let rows =
         sort_key (\<lambda>x. lower (row_name x))
           (map (\<lambda>l. \<lparr> row_name = split_ws l ! 0, row_id = split_ws l ! 1,
                      row_size = split_ws l ! 2 @ '' '' @ split_ws l ! 3,
                      row_modified = join '' '' (drop 4 (split_ws l)) \<rparr>)
              (filter (\<lambda>l. 4 \<le> length (split_ws l)) data))
       in get_installed_models (Completed (join [CHR 0x0A] (header # data) @ trailer)) =
            (Inr rows, []) \<and>
          length rows = length (filter (\<lambda>l. 4 \<le> length (split_ws l)) data) \<and>
          sorted (map (\<lambda>x. lower (row_name x)) rows) \<and>
          (filter (\<lambda>l. 4 \<le> length (split_ws l)) data = [] \<longrightarrow> rows = [])))"
proof (intro conjI impI)
  show "lower ''ABCDEFGHIJKLMNOPQRSTUVWXYZ'' = ''abcdefghijklmnopqrstuvwxyz''"
    by code_simp
  show "lower ''abcdefghijklmnopqrstuvwxyz0123456789:.-_/'' =
     ''abcdefghijklmnopqrstuvwxyz0123456789:.-_/''"
    by code_simp
next
  assume a: "(\<forall>l \<in> set (header # data). \<forall>c \<in> set l. \<not> is_linebreak c) \<and>
   (\<exists>c \<in> set header. \<not> isspace c) \<and>
   (\<forall>c \<in> set trailer. isspace c)"
  then have "List.map_filter parse_line
           (drop 1 (splitlines (strip (join [CHR 0x0A] (header # data) @ trailer)))) =
         List.map_filter parse_line data"
    by (intro data_rows_of_output) auto
  then have "parse_models (join [CHR 0x0A] (header # data) @ trailer) =
      sort_key (\<lambda>x. lower (row_name x)) (List.map_filter parse_line data)"
    by (simp add: parse_models_def Let_def)
  then show "let rows =
        sort_key (\<lambda>x. lower (row_name x))
          (map (\<lambda>l. \<lparr> row_name = split_ws l ! 0, row_id = split_ws l ! 1,
                     row_size = split_ws l ! 2 @ '' '' @ split_ws l ! 3,
                     row_modified = join '' '' (drop 4 (split_ws l)) \<rparr>)
             (filter (\<lambda>l. 4 \<le> length (split_ws l)) data))
      in get_installed_models (Completed (join [CHR 0x0A] (header # data) @ trailer)) =
           (Inr rows, []) \<and>
         length rows = length (filter (\<lambda>l. 4 \<le> length (split_ws l)) data) \<and>
         sorted (map (\<lambda>x. lower (row_name x)) rows) \<and>
         (filter (\<lambda>l. 4 \<le> length (split_ws l)) data = [] \<longrightarrow> rows = [])"
    by (simp add: Let_def get_installed_models_def map_filter_parse_line)
qed

text \<open>The theorem of C2 on an output of a header, four rows out of order, a line
  of two tokens among them, and a final line feed. The names \<^verbatim>\<open>Zeta:1b\<close> and
  \<^verbatim>\<open>Gemma:2b\<close> start with an upper-case letter: in the order of the code points
  they would come before \<^verbatim>\<open>alpha:2b\<close>; with the case ignored \<^verbatim>\<open>alpha:2b\<close> is first
  and \<^verbatim>\<open>Zeta:1b\<close> last.\<close>

theorem get_installed_models_rows_witness:
  "list_all (list_all (\<lambda>c. \<not> is_linebreak c))
     (''NAME ID SIZE MODIFIED'' #
       [''mistral:7b f974a74358d6 4.1 GB 2 months ago'', ''short line'',
        ''Zeta:1b 0a8c26691023 637 MB 5 weeks ago'',
        ''alpha:2b 2ae6f6dd7a3d 1.6 GB 4 hours ago'',
        ''Gemma:2b b50d6c999e59 1.7 GB 3 days ago'']) \<and>
   (\<exists>c \<in> set ''NAME ID SIZE MODIFIED''. \<not> isspace c) \<and>
   list_all isspace [CHR 0x0A] \<and>
   get_installed_models
     (Completed (join [CHR 0x0A]
        (''NAME ID SIZE MODIFIED'' #
         [''mistral:7b f974a74358d6 4.1 GB 2 months ago'', ''short line'',
          ''Zeta:1b 0a8c26691023 637 MB 5 weeks ago'',
          ''alpha:2b 2ae6f6dd7a3d 1.6 GB 4 hours ago'',
          ''Gemma:2b b50d6c999e59 1.7 GB 3 days ago'']) @ [CHR 0x0A])) =
     (Inr [\<lparr> row_name = ''alpha:2b'', row_id = ''2ae6f6dd7a3d'', row_size = ''1.6 GB'',
              row_modified = ''4 hours ago'' \<rparr>,
           \<lparr> row_name = ''Gemma:2b'', row_id = ''b50d6c999e59'', row_size = ''1.7 GB'',
              row_modified = ''3 days ago'' \<rparr>,
           \<lparr> row_name = ''mistral:7b'', row_id = ''f974a74358d6'', row_size = ''4.1 GB'',
              row_modified = ''2 months ago'' \<rparr>,
           \<lparr> row_name = ''Zeta:1b'', row_id = ''0a8c26691023'', row_size = ''637 MB'',
              row_modified = ''5 weeks ago'' \<rparr>], []) \<and>
   \<not> sorted [''alpha:2b'', ''Gemma:2b'', ''mistral:7b'', ''Zeta:1b'']"
proof -
  let ?data = "[''mistral:7b f974a74358d6 4.1 GB 2 months ago'', ''short line'',
        ''Zeta:1b 0a8c26691023 637 MB 5 weeks ago'',
        ''alpha:2b 2ae6f6dd7a3d 1.6 GB 4 hours ago'',
        ''Gemma:2b b50d6c999e59 1.7 GB 3 days ago'']"
  have h1: "\<forall>l \<in> set (''NAME ID SIZE MODIFIED'' # ?data). \<forall>c \<in> set l. \<not> is_linebreak c"
    by code_simp
  have h2: "\<exists>c \<in> set ''NAME ID SIZE MODIFIED''. \<not> isspace c"
    by code_simp
  have h3: "\<forall>c \<in> set [CHR 0x0A]. isspace c"
    by code_simp
  have r: "sort_key (\<lambda>x. lower (row_name x))
          (map (\<lambda>l. \<lparr> row_name = split_ws l ! 0, row_id = split_ws l ! 1,
                     row_size = split_ws l ! 2 @ '' '' @ split_ws l ! 3,
                     row_modified = join '' '' (drop 4 (split_ws l)) \<rparr>)
             (filter (\<lambda>l. 4 \<le> length (split_ws l)) ?data)) =
     [\<lparr> row_name = ''alpha:2b'', row_id = ''2ae6f6dd7a3d'', row_size = ''1.6 GB'',
              row_modified = ''4 hours ago'' \<rparr>,
           \<lparr> row_name = ''Gemma:2b'', row_id = ''b50d6c999e59'', row_size = ''1.7 GB'',
              row_modified = ''3 days ago'' \<rparr>,
           \<lparr> row_name = ''mistral:7b'', row_id = ''f974a74358d6'', row_size = ''4.1 GB'',
              row_modified = ''2 months ago'' \<rparr>,
           \<lparr> row_name = ''Zeta:1b'', row_id = ''0a8c26691023'', row_size = ''637 MB'',
              row_modified = ''5 weeks ago'' \<rparr>]"
    by code_simp
  have ns: "\<not> sorted [''alpha:2b'', ''Gemma:2b'', ''mistral:7b'', ''Zeta:1b'']"
    by code_simp
  from get_installed_models_rows
    [where header = "''NAME ID SIZE MODIFIED''" and data = ?data and trailer = "[CHR 0x0A]",
     THEN conjunct2, THEN conjunct2, THEN mp, OF conjI [OF h1 conjI [OF h2 h3]],
     unfolded Let_def, THEN conjunct1]
  have "get_installed_models
     (Completed (join [CHR 0x0A] (''NAME ID SIZE MODIFIED'' # ?data) @ [CHR 0x0A])) =
     (Inr (sort_key (\<lambda>x. lower (row_name x))
          (map (\<lambda>l. \<lparr> row_name = split_ws l ! 0, row_id = split_ws l ! 1,
                     row_size = split_ws l ! 2 @ '' '' @ split_ws l ! 3,
                     row_modified = join '' '' (drop 4 (split_ws l)) \<rparr>)
             (filter (\<lambda>l. 4 \<le> length (split_ws l)) ?data))), [])" .
  with r h1 h2 h3 ns show ?thesis
    by (simp add: list_all_iff)
qed

section \<open>Properties of the file system operations\<close>

lemma split_on_no_sep: "sep \<notin> set s \<Longrightarrow> split_on sep s = [s]"
  by (induction s) auto

lemma pjoin_plain: "plain s \<Longrightarrow> pjoin p s = p @ [s]"
proof -
  assume a: "plain s"
  then obtain c cs where s: "s = c # cs" "c \<noteq> CHR ''/''"
    by (cases s) (auto simp: plain_def)
  then have "root_of s = []"
    by (simp add: root_of_def)
  moreover have "path_parts s = [s]"
    using a by (simp add: path_parts_def plain_def split_on_no_sep)
  ultimately show ?thesis
    by (simp add: pjoin_def)
qed

lemma plain_literals:
  "plain ''manifests''" "plain ''registry.ollama.ai''" "plain ''library''" "plain ''blobs''"
  by (simp_all add: plain_def)

lemma node_at_snoc: "plain n \<Longrightarrow> node_at fs (p @ [n]) = fs (p @ [n])"
  by (auto simp: node_at_def plain_def Cons_eq_append_conv)

lemma node_at_snoc2: "node_at fs (p @ [n, m]) = fs (p @ [n, m])"
  by (auto simp: node_at_def Cons_eq_append_conv)

lemma node_at_upd:
  "node_at (fs(q \<mapsto> v)) p =
     (if p = [] \<or> p = [''/''] \<or> p = [''//''] then Some Dir
      else if p = q then Some v else fs p)"
  by (simp add: node_at_def)


lemma node_at_upd_Dir:
  "node_at fs p = Some Dir \<Longrightarrow> v = Dir \<or> p \<noteq> q \<Longrightarrow> node_at (fs(q \<mapsto> v)) p = Some Dir"
  by (auto simp: node_at_def split: if_splits)

subsection \<open>\<^verbatim>\<open>mkdir\<close>\<close>

lemma mkdir_p_existing: "node_at fs p = Some Dir \<Longrightarrow> mkdir_p p fs = (None, fs)"
  by (subst mkdir_p.simps) simp

lemma mkdir_p_effect:
  "mkdir_p p fs = (r, fs') \<Longrightarrow>
   (r \<noteq> None \<longrightarrow> fs' = fs) \<and>
   (r = None \<longrightarrow> node_at fs' p = Some Dir) \<and>
   (\<forall>q. node_at fs q = Some Dir \<longrightarrow> node_at fs' q = Some Dir)"
proof (induction p fs arbitrary: r fs' rule: mkdir_p.induct)
  case (1 p fs)
  show ?case
  proof (cases "node_at fs p")
    case (Some n)
    with "1.prems" show ?thesis
      by (cases n) (auto simp: mkdir_p.simps [of p fs])
  next
    case None
    note np = None
    show ?thesis
    proof (cases "node_at fs (butlast p)")
      case (Some n)
      with "1.prems" np show ?thesis
        by (cases n) (auto simp: mkdir_p.simps [of p fs] node_at_def split: if_splits)
    next
      case None
      obtain r1 fs1 where rec: "mkdir_p (butlast p) fs = (r1, fs1)"
        by (cases "mkdir_p (butlast p) fs") auto
      from "1.IH" [OF np None rec] have ih:
        "r1 \<noteq> None \<longrightarrow> fs1 = fs" "r1 = None \<longrightarrow> node_at fs1 (butlast p) = Some Dir"
        "\<forall>q. node_at fs q = Some Dir \<longrightarrow> node_at fs1 q = Some Dir"
        by auto
      show ?thesis
      proof (cases r1)
        case None
        with "1.prems" np \<open>node_at fs (butlast p) = None\<close> rec
        have res: "r = None" "fs' = fs1(p \<mapsto> Dir)"
          by (auto simp: mkdir_p.simps [of p fs])
        have "node_at (fs1(p \<mapsto> Dir)) p = Some Dir"
          by (simp add: node_at_def)
        moreover have "node_at (fs1(p \<mapsto> Dir)) q = Some Dir" if "node_at fs q = Some Dir" for q
          using that ih(3) by (intro node_at_upd_Dir) auto
        ultimately show ?thesis
          unfolding res by blast
      next
        case (Some e)
        with "1.prems" np \<open>node_at fs (butlast p) = None\<close> rec
        have "r = Some e" "fs' = fs1"
          by (auto simp: mkdir_p.simps [of p fs])
        with ih Some show ?thesis
          by auto
      qed
    qed
  qed
qed

lemma mkdir_p_failed: "mkdir_p p fs = (Some e, fs') \<Longrightarrow> fs' = fs"
  using mkdir_p_effect [of p fs "Some e" fs'] by simp

lemma mkdir_p_made: "mkdir_p p fs = (None, fs') \<Longrightarrow> node_at fs' p = Some Dir"
  using mkdir_p_effect [of p fs None fs'] by simp

lemma mkdir_p_keeps_dirs:
  "mkdir_p p fs = (r, fs') \<Longrightarrow> node_at fs q = Some Dir \<Longrightarrow> node_at fs' q = Some Dir"
  using mkdir_p_effect [of p fs r fs'] by simp

subsection \<open>\<^verbatim>\<open>copy2\<close>\<close>

text \<open>The path \<^verbatim>\<open>copy2\<close> writes to.\<close>

lemma copy2_success:
  "copy2 src dst fs = Inr fs' \<Longrightarrow>
   \<exists>content.
     node_at fs src = Some (File content) \<and>
     (let dst' = (if node_at fs dst = Some Dir then dst @ [last src] else dst)
      in dst' \<noteq> src \<and> node_at fs dst' \<noteq> Some Dir \<and>
         node_at fs (butlast dst') = Some Dir \<and> fs' = fs(dst' \<mapsto> File content))"
  by (auto simp: copy2_def Let_def split: option.splits node.splits if_splits)

lemma copy2_keeps_dirs:
  assumes "copy2 src dst fs = Inr fs'" and "node_at fs q = Some Dir"
  shows "node_at fs' q = Some Dir"
proof -
  from copy2_success [OF assms(1)] obtain content dst' where
    "node_at fs dst' \<noteq> Some Dir" "fs' = fs(dst' \<mapsto> File content)"
    by (auto simp: Let_def)
  with assms(2) show ?thesis
    by (auto simp: node_at_def split: if_splits)
qed

lemma copy2_again:
  assumes "node_at fs src = Some (File content)"
    and "dst' = (if node_at fs dst = Some Dir then dst @ [last src] else dst)"
    and "node_at fs dst' = Some (File content)"
    and "fs dst' = Some (File content)"
    and "dst' \<noteq> src"
    and "node_at fs (butlast dst') = Some Dir"
  shows "copy2 src dst fs = Inr fs"
proof -
  have "fs(dst' \<mapsto> File content) = fs"
    using assms(4) by (simp add: fun_upd_idem)
  with assms show ?thesis
    by (simp add: copy2_def Let_def)
qed

section \<open>Properties of the loop over the digests\<close>














section \<open>Running the exporter twice\<close>

lemma not_inside_snoc:
  assumes "\<not> inside B S"
  shows "S @ [n] \<noteq> B @ [m]" and "S @ [n] \<noteq> B @ [m, k]"
proof -
  show "S @ [n] \<noteq> B @ [m]"
    using assms by (auto simp: inside_def)
  show "S @ [n] \<noteq> B @ [m, k]"
  proof
    assume "S @ [n] = B @ [m, k]"
    then have "S @ [n] = (B @ [m]) @ [k]"
      by simp
    then have "S = B @ [m]"
      by (simp only: append1_eq_conv)
    with assms show False
      by (simp add: inside_def)
  qed
qed

lemma not_inside_child: "\<not> inside out p \<Longrightarrow> \<not> inside (out @ [n]) p"
proof
  assume a: "\<not> inside out p" and "inside (out @ [n]) p"
  then have "take (Suc (length out)) p = out @ [n]"
    by (simp add: inside_def)
  then have "take (length out) (take (Suc (length out)) p) = take (length out) (out @ [n])"
    by simp
  then have "take (length out) p = out"
    by (simp add: min_def)
  with a show False
    by (simp add: inside_def)
qed

text \<open>What the loop over the digests can change: it keeps every directory, and
  a path it changes is a file in (or one level below) the destination directory
  whose content is that of the source blob of the same name.\<close>

lemma copy_blobs_frame:
  assumes "\<forall>d \<in> set ds. plain (blob_name d)" and "\<not> inside B S"
    and "copy_blobs S B ds g = (r, gF, out)"
  shows "(\<forall>q. node_at g q = Some Dir \<longrightarrow> node_at gF q = Some Dir) \<and>
         (\<forall>p. gF p = g p \<or>
              ((\<exists>n k. p = B @ [n] \<or> p = B @ [n, k]) \<and>
               (\<exists>c. gF p = Some (File c) \<and> g (S @ [last p]) = Some (File c))))"
  using assms
proof (induction ds arbitrary: g r gF out)
  case Nil
  then show ?case by simp
next
  case (Cons d ds)
  let ?n = "blob_name d"
  from Cons.prems have pl: "plain ?n" and pls: "\<forall>d \<in> set ds. plain (blob_name d)"
    by auto
  have pj: "pjoin S ?n = S @ [?n]" "pjoin B ?n = B @ [?n]"
    using pl by (simp_all add: pjoin_plain)
  note sep = Cons.prems(2)
  show ?case
  proof (cases "exists g (S @ [?n])")
    case False
    then obtain r' out' where "copy_blobs S B ds g = (r', gF, out')"
      using Cons.prems(3) pj by (auto simp: Let_def split: prod.splits)
    from Cons.IH [OF pls sep this] show ?thesis .
  next
    case True
    show ?thesis
    proof (cases "copy2 (S @ [?n]) (B @ [?n]) g")
      case (Inl e)
      with True Cons.prems(3) pj have "gF = g"
        by (auto simp: Let_def)
      then show ?thesis by simp
    next
      case (Inr g1)
      with True Cons.prems(3) pj obtain r' out' where tail: "copy_blobs S B ds g1 = (r', gF, out')"
        by (auto simp: Let_def split: prod.splits)
      from copy2_success [OF Inr] obtain c dst' where
        src: "node_at g (S @ [?n]) = Some (File c)"
        and dst': "dst' = B @ [?n] \<or> dst' = B @ [?n, ?n]"
        and g1: "g1 = g(dst' \<mapsto> File c)"
        by (auto simp: Let_def split: if_splits)
      have raw: "g (S @ [?n]) = Some (File c)"
        using src pl by (simp add: node_at_snoc)
      have "S @ [m] \<noteq> dst'" for m
        using dst' not_inside_snoc(1) [OF sep, of m ?n] not_inside_snoc(2) [OF sep, of m ?n ?n]
        by auto
      then have srcs: "g1 (S @ [m]) = g (S @ [m])" for m
        using g1 by simp
      from Cons.IH [OF pls sep tail] have
        ihd: "\<forall>q. node_at g1 q = Some Dir \<longrightarrow> node_at gF q = Some Dir"
        and ihp: "\<forall>p. gF p = g1 p \<or>
              ((\<exists>n k. p = B @ [n] \<or> p = B @ [n, k]) \<and>
               (\<exists>c. gF p = Some (File c) \<and> g1 (S @ [last p]) = Some (File c)))"
        by auto
      have "node_at gF q = Some Dir" if "node_at g q = Some Dir" for q
        using copy2_keeps_dirs [OF Inr that] ihd by simp
      moreover have "gF p = g p \<or>
              ((\<exists>n k. p = B @ [n] \<or> p = B @ [n, k]) \<and>
               (\<exists>c. gF p = Some (File c) \<and> g (S @ [last p]) = Some (File c)))" for p
      proof (cases "gF p = g1 p")
        case False
        with ihp srcs show ?thesis
          by metis
      next
        case same: True
        show ?thesis
        proof (cases "p = dst'")
          case True
          with same g1 have "gF p = Some (File c)"
            by simp
          moreover have "last p = ?n"
            using True dst' by auto
          ultimately show ?thesis
            using True dst' raw by auto
        next
          case False
          with same g1 show ?thesis
            by simp
        qed
      qed
      ultimately show ?thesis
        by blast
    qed
  qed
qed

lemma copy_blobs_twice:
  assumes "\<forall>d \<in> set ds. plain (blob_name d)" and "\<not> inside B S"
    and "copy_blobs S B ds g = (r, gF, out)"
  shows "copy_blobs S B ds gF = (r, gF, out)"
  using assms
proof (induction ds arbitrary: g r gF out)
  case Nil
  then show ?case by simp
next
  case (Cons d ds)
  let ?n = "blob_name d"
  from Cons.prems have pl: "plain ?n" and pls: "\<forall>d \<in> set ds. plain (blob_name d)"
    by auto
  have pj: "pjoin S ?n = S @ [?n]" "pjoin B ?n = B @ [?n]"
    using pl by (simp_all add: pjoin_plain)
  note sep = Cons.prems(2)
  have notdst: "S @ [?n] \<noteq> B @ [n]" "S @ [?n] \<noteq> B @ [n, k]" for n k
    using not_inside_snoc [OF sep] by auto
  from copy_blobs_frame [OF Cons.prems] have
    whole: "\<forall>p. gF p = g p \<or>
              ((\<exists>n k. p = B @ [n] \<or> p = B @ [n, k]) \<and>
               (\<exists>c. gF p = Some (File c) \<and> g (S @ [last p]) = Some (File c)))"
    by simp
  have srcF: "gF (S @ [?n]) = g (S @ [?n])"
    using whole notdst by metis
  then have exF: "exists gF (S @ [?n]) = exists g (S @ [?n])"
    using pl by (simp add: exists_def node_at_snoc)
  show ?case
  proof (cases "exists g (S @ [?n])")
    case False
    then obtain out' where tail: "copy_blobs S B ds g = (r, gF, out')"
      and out: "out = BlobSkipped ?n # out'"
      using Cons.prems(3) pj by (auto simp: Let_def split: prod.splits)
    from Cons.IH [OF pls sep tail] have "copy_blobs S B ds gF = (r, gF, out')" .
    with False exF out pj show ?thesis
      by (simp add: Let_def)
  next
    case True
    show ?thesis
    proof (cases "copy2 (S @ [?n]) (B @ [?n]) g")
      case (Inl e)
      with True Cons.prems(3) pj have "gF = g"
        by (auto simp: Let_def)
      with Cons.prems(3) show ?thesis
        by simp
    next
      case (Inr g1)
      with True Cons.prems(3) pj obtain out' where tail: "copy_blobs S B ds g1 = (r, gF, out')"
        and out: "out = BlobCopied ?n # out'"
        by (auto simp: Let_def split: prod.splits)
      define dst' where
        "dst' = (if node_at g (B @ [?n]) = Some Dir then (B @ [?n]) @ [last (S @ [?n])]
                 else B @ [?n])"
      from copy2_success [OF Inr, unfolded Let_def, folded dst'_def] obtain c where
        src: "node_at g (S @ [?n]) = Some (File c)"
        and ne': "dst' \<noteq> S @ [?n]"
        and par': "node_at g (butlast dst') = Some Dir"
        and g1': "g1 = g(dst' \<mapsto> File c)"
        by blast
      have shape: "dst' = B @ [?n] \<or> dst' = B @ [?n, ?n]" and lst: "last dst' = ?n"
        by (auto simp: dst'_def)
      have nat: "node_at f dst' = f dst'" for f
        using shape pl node_at_snoc [of ?n f B] node_at_snoc2 [of f B ?n ?n] by auto
      have raw: "g (S @ [?n]) = Some (File c)"
        using src pl by (simp add: node_at_snoc)
      from copy_blobs_frame [OF pls sep tail] have
        td: "\<forall>q. node_at g1 q = Some Dir \<longrightarrow> node_at gF q = Some Dir"
        and tp: "\<forall>p. gF p = g1 p \<or>
              ((\<exists>n k. p = B @ [n] \<or> p = B @ [n, k]) \<and>
               (\<exists>c. gF p = Some (File c) \<and> g1 (S @ [last p]) = Some (File c)))"
        by auto
      have g1src: "g1 (S @ [?n]) = Some (File c)"
        using g1' ne' raw by simp
      have keep: "node_at gF q = Some Dir" if "node_at g q = Some Dir" for q
        using copy2_keeps_dirs [OF Inr that] td by simp
      have dstF: "gF dst' = Some (File c)"
      proof -
        have "g1 dst' = Some (File c)"
          using g1' by simp
        moreover have "g1 (S @ [last dst']) = Some (File c)"
          using lst g1src by simp
        ultimately show ?thesis
          using tp by (metis option.inject node.inject)
      qed
      have dirF: "(node_at gF (B @ [?n]) = Some Dir) = (node_at g (B @ [?n]) = Some Dir)"
      proof (cases "node_at g (B @ [?n]) = Some Dir")
        case True
        with keep show ?thesis by simp
      next
        case False
        then have "dst' = B @ [?n]"
          by (simp add: dst'_def)
        with dstF nat [of gF] have "node_at gF (B @ [?n]) = Some (File c)"
          by simp
        with False show ?thesis by simp
      qed
      have "copy2 (S @ [?n]) (B @ [?n]) gF = Inr gF"
      proof (rule copy2_again [where content = c and dst' = dst'])
        show "node_at gF (S @ [?n]) = Some (File c)"
          using srcF raw pl by (simp add: node_at_snoc)
        show "dst' = (if node_at gF (B @ [?n]) = Some Dir then (B @ [?n]) @ [last (S @ [?n])]
                      else B @ [?n])"
          using dirF by (simp add: dst'_def)
        show "node_at gF dst' = Some (File c)"
          using dstF nat [of gF] by simp
        show "gF dst' = Some (File c)"
          by (rule dstF)
        show "dst' \<noteq> S @ [?n]"
          by (rule ne')
        show "node_at gF (butlast dst') = Some Dir"
          using keep [OF par'] .
      qed
      moreover from Cons.IH [OF pls sep tail] have "copy_blobs S B ds gF = (r, gF, out')" .
      ultimately show ?thesis
        using True exF out pj by (simp add: Let_def)
    qed
  qed
qed

lemma try_copy_plain:
  assumes "plain model_base" and "plain version"
  shows "try_copy d model_base version manifest_path digests fs =
     (let M = OUTPUT_DIR d @ [''manifests'', ''registry.ollama.ai'', ''library'', model_base];
          B = OUTPUT_DIR d @ [''blobs'']
      in case mkdir_p M fs of
           (Some e, fs1) \<Rightarrow> (fs1, [ErrorCopying e])
         | (None, fs1) \<Rightarrow>
             (case mkdir_p B fs1 of
                (Some e, fs2) \<Rightarrow> (fs2, [ErrorCopying e])
              | (None, fs2) \<Rightarrow>
                  (case copy2 manifest_path (M @ [version]) fs2 of
                     Inl e \<Rightarrow> (fs2, [CopyingManifest (M @ [version]), ErrorCopying e])
                   | Inr fs3 \<Rightarrow>
                       (case copy_blobs (OLLAMA_BLOB_DIR d) B digests fs3 of
                          (Some e, fs4, out) \<Rightarrow>
                            (fs4, [CopyingManifest (M @ [version]), ManifestCopied,
                                   CopyingBlobs] @ out @ [ErrorCopying e])
                        | (None, fs4, out) \<Rightarrow>
                            (fs4, [CopyingManifest (M @ [version]), ManifestCopied,
                                   CopyingBlobs] @ out @ [FilesCopied (OUTPUT_DIR d)])))))"
  using assms
  by (simp add: try_copy_def Let_def pjoin_plain plain_literals
      split: prod.splits option.splits sum.splits)

lemma try_copy_twice:
  assumes pb: "plain model_base" and pv: "plain version"
    and pls: "\<forall>dg \<in> set digests. plain (blob_name dg)"
    and nm: "\<not> inside (OUTPUT_DIR d) manifest_path"
    and ns: "\<not> inside (OUTPUT_DIR d) (OLLAMA_BLOB_DIR d)"
  shows "try_copy d model_base version manifest_path digests
           (fst (try_copy d model_base version manifest_path digests fs)) =
         try_copy d model_base version manifest_path digests fs"
proof -
  define M where "M = OUTPUT_DIR d @ [''manifests'', ''registry.ollama.ai'', ''library'', model_base]"
  define B where "B = OUTPUT_DIR d @ [''blobs'']"
  define S where "S = OLLAMA_BLOB_DIR d"
  define dm where "dm = M @ [version]"
  note tc = try_copy_plain [OF pb pv, of d manifest_path digests, unfolded Let_def,
      folded M_def B_def S_def, folded dm_def]
  have sep: "\<not> inside B S"
    unfolding B_def S_def using ns by (rule not_inside_child)
  obtain r1 fs1 where a1: "mkdir_p M fs = (r1, fs1)"
    by (cases "mkdir_p M fs") auto
  show ?thesis
  proof (cases r1)
    case (Some e)
    with a1 have "fs1 = fs"
      by (simp add: mkdir_p_failed)
    with a1 Some show ?thesis
      by (simp add: tc)
  next
    case None
    note r1 = None
    from a1 r1 have dM1: "node_at fs1 M = Some Dir"
      by (simp add: mkdir_p_made)
    obtain r2 fs2 where a2: "mkdir_p B fs1 = (r2, fs2)"
      by (cases "mkdir_p B fs1") auto
    have dM2: "node_at fs2 M = Some Dir"
      using mkdir_p_keeps_dirs [OF a2 dM1] .
    show ?thesis
    proof (cases r2)
      case (Some e)
      with a2 have eq: "fs2 = fs1"
        by (simp add: mkdir_p_failed)
      have first: "try_copy d model_base version manifest_path digests fs = (fs1, [ErrorCopying e])"
        using a1 r1 a2 Some eq by (simp add: tc)
      have "mkdir_p M fs1 = (None, fs1)"
        using dM1 by (rule mkdir_p_existing)
      with a2 Some eq have "try_copy d model_base version manifest_path digests fs1 =
          (fs1, [ErrorCopying e])"
        by (simp add: tc)
      with first show ?thesis
        by simp
    next
      case None
      note r2 = None
      from a2 r2 have dB2: "node_at fs2 B = Some Dir"
        by (simp add: mkdir_p_made)
      show ?thesis
      proof (cases "copy2 manifest_path dm fs2")
        case (Inl e)
        have first: "try_copy d model_base version manifest_path digests fs =
            (fs2, [CopyingManifest dm, ErrorCopying e])"
          using a1 r1 a2 r2 Inl by (simp add: tc)
        have "mkdir_p M fs2 = (None, fs2)" "mkdir_p B fs2 = (None, fs2)"
          using dM2 dB2 by (simp_all add: mkdir_p_existing)
        with Inl have "try_copy d model_base version manifest_path digests fs2 =
            (fs2, [CopyingManifest dm, ErrorCopying e])"
          by (simp add: tc)
        with first show ?thesis
          by simp
      next
        case (Inr fs3)
        obtain r4 fs4 out where a4: "copy_blobs S B digests fs3 = (r4, fs4, out)"
          by (cases "copy_blobs S B digests fs3") auto
        define dst' where
          "dst' = (if node_at fs2 dm = Some Dir then dm @ [last manifest_path] else dm)"
        from copy2_success [OF Inr, unfolded Let_def, folded dst'_def] obtain c where
          src: "node_at fs2 manifest_path = Some (File c)"
          and ne: "dst' \<noteq> manifest_path"
          and par: "node_at fs2 (butlast dst') = Some Dir"
          and fs3: "fs3 = fs2(dst' \<mapsto> File c)"
          by blast
        have nat: "node_at f dst' = f dst'" for f
          using pv node_at_snoc [of version f M] node_at_snoc2 [of f M version "last manifest_path"]
          by (auto simp: dst'_def dm_def)
        from src have special: "manifest_path \<noteq> [] \<and> manifest_path \<noteq> [''/''] \<and>
            manifest_path \<noteq> [''//'']"
          by (auto simp: node_at_def split: if_splits)
        then have natm: "node_at f manifest_path = f manifest_path" for f
          by (simp add: node_at_def)
        from copy_blobs_frame [OF pls sep a4] have
          kd: "\<forall>q. node_at fs3 q = Some Dir \<longrightarrow> node_at fs4 q = Some Dir"
          and fr: "\<forall>p. fs4 p = fs3 p \<or> (\<exists>n k. p = B @ [n] \<or> p = B @ [n, k])"
          by auto
        have keep: "node_at fs4 q = Some Dir" if "node_at fs2 q = Some Dir" for q
          using copy2_keeps_dirs [OF Inr that] kd by simp
        have notB: "dst' \<noteq> B @ [n]" "dst' \<noteq> B @ [n, k]" "dm \<noteq> B @ [n]" "dm \<noteq> B @ [n, k]" for n k
          by (auto simp: dst'_def dm_def M_def B_def)
        have notBm: "manifest_path \<noteq> B @ [n]" "manifest_path \<noteq> B @ [n, k]" for n k
          using nm by (auto simp: B_def inside_def)
        have d4: "fs4 dst' = Some (File c)"
          using fr notB fs3 by (metis fun_upd_same)
        have m4: "fs4 manifest_path = Some (File c)"
        proof -
          have "fs4 manifest_path = fs3 manifest_path"
            using fr notBm by metis
          also have "\<dots> = fs2 manifest_path"
            using fs3 ne by simp
          finally show ?thesis
            using src natm by simp
        qed
        have dir4: "(node_at fs4 dm = Some Dir) = (node_at fs2 dm = Some Dir)"
        proof (cases "node_at fs2 dm = Some Dir")
          case True
          with keep show ?thesis by simp
        next
          case False
          then have "dst' = dm"
            by (simp add: dst'_def)
          with d4 nat [of fs4] have "node_at fs4 dm = Some (File c)"
            by simp
          with False show ?thesis by simp
        qed
        have c4: "copy2 manifest_path dm fs4 = Inr fs4"
        proof (rule copy2_again [where content = c and dst' = dst'])
          show "node_at fs4 manifest_path = Some (File c)"
            using m4 natm by simp
          show "dst' = (if node_at fs4 dm = Some Dir then dm @ [last manifest_path] else dm)"
            using dir4 by (simp add: dst'_def)
          show "node_at fs4 dst' = Some (File c)"
            using d4 nat by simp
          show "fs4 dst' = Some (File c)"
            by (rule d4)
          show "dst' \<noteq> manifest_path"
            by (rule ne)
          show "node_at fs4 (butlast dst') = Some Dir"
            using keep [OF par] .
        qed
        have k4: "mkdir_p M fs4 = (None, fs4)" "mkdir_p B fs4 = (None, fs4)"
          using keep [OF dM2] keep [OF dB2] by (simp_all add: mkdir_p_existing)
        have b4: "copy_blobs S B digests fs4 = (r4, fs4, out)"
          using pls sep a4 by (rule copy_blobs_twice)
        have first: "fst (try_copy d model_base version manifest_path digests fs) = fs4"
          using a1 r1 a2 r2 Inr a4 by (cases r4) (simp_all add: tc)
        have "try_copy d model_base version manifest_path digests fs4 =
            try_copy d model_base version manifest_path digests fs"
          using a1 r1 a2 r2 Inr a4 k4 c4 b4 by (cases r4) (simp_all add: tc)
        with first show ?thesis
          by simp
      qed
    qed
  qed
qed

lemma mkdir_p_twice: "mkdir_p p fs = (None, fs') \<Longrightarrow> mkdir_p p fs' = (None, fs')"
  by (simp add: mkdir_p_made mkdir_p_existing)

text \<open>
  Claim C6. The model name splits into plain parts, the blob file names are
  plain, and neither the manifest nor the source blob directory lies in the
  destination tree. Then running \<^verbatim>\<open>copy_files\<close> again, with the same arguments, on
  the file system the first run left, returns that same file system and prints
  what the first run printed: nothing is added, every copy overwrites the file
  it wrote before with the same content, and the second run raises no error
  that the first did not. Making a directory that \<^verbatim>\<open>mkdir\<close> has just made succeeds
  and changes nothing.
\<close>

theorem copy_files_twice:
  "(list_all plain (split_on (CHR '':'') model_name) \<and>
    list_all (\<lambda>digest. plain (blob_name digest)) digests \<and>
    \<not> inside (OUTPUT_DIR d) manifest_path \<and>
    \<not> inside (OUTPUT_DIR d) (OLLAMA_BLOB_DIR d) \<longrightarrow>
      copy_files d model_name manifest_path digests
        (fst (copy_files d model_name manifest_path digests fs)) =
      copy_files d model_name manifest_path digests fs) \<and>
   (mkdir_p p fs = (None, fs') \<longrightarrow> mkdir_p p fs' = (None, fs'))"
proof (intro conjI impI)
  assume a: "list_all plain (split_on (CHR '':'') model_name) \<and>
    list_all (\<lambda>digest. plain (blob_name digest)) digests \<and>
    \<not> inside (OUTPUT_DIR d) manifest_path \<and>
    \<not> inside (OUTPUT_DIR d) (OLLAMA_BLOB_DIR d)"
  show "copy_files d model_name manifest_path digests
        (fst (copy_files d model_name manifest_path digests fs)) =
      copy_files d model_name manifest_path digests fs"
  proof (cases "length (split_on (CHR '':'') model_name) = 2")
    case False
    then show ?thesis
      by (simp add: copy_files_def)
  next
    case True
    with a have "plain (split_on (CHR '':'') model_name ! 0)"
      "plain (split_on (CHR '':'') model_name ! 1)"
      by (simp_all add: list_all_length)
    moreover from a have "\<forall>dg \<in> set digests. plain (blob_name dg)"
      by (simp add: list_all_iff)
    ultimately have "try_copy d (split_on (CHR '':'') model_name ! 0)
        (split_on (CHR '':'') model_name ! 1) manifest_path digests
        (fst (try_copy d (split_on (CHR '':'') model_name ! 0)
           (split_on (CHR '':'') model_name ! 1) manifest_path digests fs)) =
      try_copy d (split_on (CHR '':'') model_name ! 0)
        (split_on (CHR '':'') model_name ! 1) manifest_path digests fs"
      using a by (intro try_copy_twice) auto
    with True show ?thesis
      by (simp add: copy_files_def Let_def)
  qed
next
  assume "mkdir_p p fs = (None, fs')"
  then show "mkdir_p p fs' = (None, fs')"
    by (rule mkdir_p_twice)
qed

text \<open>The theorem of C6 on the export of the example run: the first run makes
  the directories and copies the manifest and the one blob that exists; the
  second run, on the file system the first left, returns it unchanged.\<close>

theorem copy_files_twice_witness:
  "list_all plain (split_on (CHR '':'') ''llama3:8b'') \<and>
   list_all (\<lambda>digest. plain (blob_name digest)) [''sha256:aa'', ''sha256:bb''] \<and>
   \<not> inside (OUTPUT_DIR example_dirs) example_manifest_path \<and>
   \<not> inside (OUTPUT_DIR example_dirs) (OLLAMA_BLOB_DIR example_dirs) \<and>
   fst (copy_files example_dirs ''llama3:8b'' example_manifest_path
          [''sha256:aa'', ''sha256:bb''] (files example_env))
     [''ollama'', ''blobs'', ''sha256-aa''] = Some (File ''blob aa'') \<and>
   copy_files example_dirs ''llama3:8b'' example_manifest_path [''sha256:aa'', ''sha256:bb'']
     (fst (copy_files example_dirs ''llama3:8b'' example_manifest_path
             [''sha256:aa'', ''sha256:bb''] (files example_env))) =
   copy_files example_dirs ''llama3:8b'' example_manifest_path [''sha256:aa'', ''sha256:bb'']
     (files example_env) \<and>
   fst (mkdir_p [''ollama'', ''blobs''] Map.empty) = None \<and>
   mkdir_p [''ollama'', ''blobs''] (snd (mkdir_p [''ollama'', ''blobs''] Map.empty)) =
     (None, snd (mkdir_p [''ollama'', ''blobs''] Map.empty))"
proof -
  have h1: "list_all plain (split_on (CHR '':'') ''llama3:8b'')"
    by code_simp
  have h2: "list_all (\<lambda>digest. plain (blob_name digest)) [''sha256:aa'', ''sha256:bb'']"
    by code_simp
  have h3: "\<not> inside (OUTPUT_DIR example_dirs) example_manifest_path"
    by code_simp
  have h4: "\<not> inside (OUTPUT_DIR example_dirs) (OLLAMA_BLOB_DIR example_dirs)"
    by code_simp
  have e: "fst (copy_files example_dirs ''llama3:8b'' example_manifest_path
          [''sha256:aa'', ''sha256:bb''] (files example_env))
     [''ollama'', ''blobs'', ''sha256-aa''] = Some (File ''blob aa'')"
    by code_simp
  have m: "fst (mkdir_p [''ollama'', ''blobs''] Map.empty) = None"
    by code_simp
  then have m': "mkdir_p [''ollama'', ''blobs''] Map.empty =
      (None, snd (mkdir_p [''ollama'', ''blobs''] Map.empty))"
    by (metis prod.collapse)
  note t = copy_files_twice
    [where model_name = "''llama3:8b''" and digests = "[''sha256:aa'', ''sha256:bb'']"
       and d = example_dirs and manifest_path = example_manifest_path
       and fs = "files example_env" and p = "[''ollama'', ''blobs'']"]
  have c1: "copy_files example_dirs ''llama3:8b'' example_manifest_path [''sha256:aa'', ''sha256:bb'']
     (fst (copy_files example_dirs ''llama3:8b'' example_manifest_path
             [''sha256:aa'', ''sha256:bb''] (files example_env))) =
   copy_files example_dirs ''llama3:8b'' example_manifest_path [''sha256:aa'', ''sha256:bb'']
     (files example_env)"
    using t [THEN conjunct1, THEN mp] h1 h2 h3 h4 by (intro t [THEN conjunct1, THEN mp] conjI)
  have c2: "mkdir_p [''ollama'', ''blobs''] (snd (mkdir_p [''ollama'', ''blobs''] Map.empty)) =
     (None, snd (mkdir_p [''ollama'', ''blobs''] Map.empty))"
    using copy_files_twice
      [where p = "[''ollama'', ''blobs'']" and fs = Map.empty
         and fs' = "snd (mkdir_p [''ollama'', ''blobs''] Map.empty)", THEN conjunct2, THEN mp, OF m'] .
  from h1 h2 h3 h4 e c1 m c2 show ?thesis
    by (intro conjI)
qed

end
